theory Spec2Isabelle
  imports Complex_Main
begin

section \<open>Numbers and errors\<close>

text \<open>
  The class \<open>Analytics\<close> computes on JavaScript numbers. A finite number is modelled as a
  mathematical real: rounding and overflow are not modelled. The non-finite values that the
  code reaches from finite arguments (a quotient with divisor zero, the logarithm of a
  number that is not positive) are values of \<open>jsnum\<close>, and an operation is given on
  \<open>jsnum\<close> exactly where the source can meet such a value.
\<close>

datatype jsnum = Fin real | PosInf | NegInf | NaN

definition jsdiv :: "real \<Rightarrow> real \<Rightarrow> jsnum" where
  \<comment> \<open>\<open>x / y\<close> on finite numbers: \<open>0 / 0\<close> is NaN, \<open>x / 0\<close> is an infinity.\<close>
  "jsdiv x y =
     (if y \<noteq> 0 then Fin (x / y)
      else if x = 0 then NaN
      else if 0 < x then PosInf else NegInf)"

definition jslog :: "real \<Rightarrow> jsnum" where
  \<comment> \<open>\<open>Math.log\<close> on a finite number.\<close>
  "jslog x = (if 0 < x then Fin (ln x) else if x = 0 then NegInf else NaN)"

fun jssqrt :: "jsnum \<Rightarrow> jsnum" where
  "jssqrt (Fin x) = (if x < 0 then NaN else Fin (sqrt x))"
| "jssqrt PosInf = PosInf"
| "jssqrt NegInf = NaN"
| "jssqrt NaN = NaN"

fun jsfloor :: "jsnum \<Rightarrow> jsnum" where
  "jsfloor (Fin x) = Fin (of_int \<lfloor>x\<rfloor>)"
| "jsfloor PosInf = PosInf"
| "jsfloor NegInf = NegInf"
| "jsfloor NaN = NaN"

fun jsmin :: "jsnum \<Rightarrow> jsnum \<Rightarrow> jsnum" where
  "jsmin NaN y = NaN"
| "jsmin x NaN = NaN"
| "jsmin NegInf y = NegInf"
| "jsmin x NegInf = NegInf"
| "jsmin PosInf y = y"
| "jsmin x PosInf = x"
| "jsmin (Fin x) (Fin y) = Fin (min x y)"

fun jsadd :: "jsnum \<Rightarrow> jsnum \<Rightarrow> jsnum" where
  "jsadd NaN y = NaN"
| "jsadd x NaN = NaN"
| "jsadd PosInf NegInf = NaN"
| "jsadd NegInf PosInf = NaN"
| "jsadd PosInf y = PosInf"
| "jsadd x PosInf = PosInf"
| "jsadd NegInf y = NegInf"
| "jsadd x NegInf = NegInf"
| "jsadd (Fin x) (Fin y) = Fin (x + y)"

definition array_index :: "jsnum \<Rightarrow> nat \<Rightarrow> nat option" where
  \<comment> \<open>\<open>a[v]\<close> for an array of length \<open>n\<close>: an element when \<open>v\<close> is an integer in
      \<open>0..n-1\<close>, and \<open>undefined\<close> (None) otherwise.\<close>
  "array_index v n =
     (case v of
        Fin x \<Rightarrow> (if x = of_int \<lfloor>x\<rfloor> \<and> 0 \<le> x \<and> x < real n then Some (nat \<lfloor>x\<rfloor>) else None)
      | _ \<Rightarrow> None)"

text \<open>
  The source throws \<open>Error\<close> objects that carry a message. The constructor records the
  class of the error taxonomy the message belongs to; \<open>TypeError\<close> is the error the
  JavaScript runtime throws when a property of \<open>undefined\<close> is read.
\<close>

datatype error = InputError string | ParameterRangeError string | TypeError string

fun is_InputError :: "error + 'a \<Rightarrow> bool" where
  "is_InputError (Inl (InputError m)) = True"
| "is_InputError r = False"

fun is_ParameterRangeError :: "error + 'a \<Rightarrow> bool" where
  "is_ParameterRangeError (Inl (ParameterRangeError m)) = True"
| "is_ParameterRangeError r = False"

fun is_TypeError :: "error + 'a \<Rightarrow> bool" where
  "is_TypeError (Inl (TypeError m)) = True"
| "is_TypeError r = False"

definition MIN_VARIANCE :: real where "MIN_VARIANCE = 1 / 10 ^ 8"
definition MAX_VARIANCE :: real where "MAX_VARIANCE = 10 ^ 4"
definition MIN_PRICE :: real where "MIN_PRICE = 1 / 100"

section \<open>Data\<close>

text \<open>
  The interfaces of the repository, field by field. \<open>numPaths\<close> and \<open>numSteps\<close> are
  counts (the interface sets them with \<open>parseInt\<close>): natural numbers.
\<close>

record PricePoint =
  date :: int
  open_price :: real
  high :: real
  low :: real
  close :: real
  volume :: real

record AnalyticsParams =
  alpha :: real
  beta :: real
  theta :: real
  switchProb :: real
  numPaths :: nat
  numSteps :: nat

record Probabilities =
  upside20 :: real
  downside10 :: real

record HistogramBin =
  bin :: real
  count :: nat

record AnalyticsResult =
  paths :: "real list list"
  probabilities :: Probabilities
  histogram :: "HistogramBin list"
  percentiles :: "string \<rightharpoonup> real"
  var95 :: real
  var99 :: real
  expectedShortfall95 :: real
  expectedShortfall99 :: real
  currentVolatility :: real
  trend :: real
  drift :: real

record 'a PerRegime =
  bull :: 'a
  bear :: 'a

record RegimeAnalysis =
  bullMarketProbability :: jsnum
  bearMarketProbability :: jsnum
  regimeDuration :: "real PerRegime"
  regimeVolatility :: "jsnum PerRegime"
  regimeReturns :: "real PerRegime"

section \<open>Validation, returns and GARCH volatility\<close>

definition validateParams :: "AnalyticsParams \<Rightarrow> error + unit" where
  "validateParams params =
     (if alpha params < 0 \<or> alpha params > 1 then
        Inl (ParameterRangeError ''Alpha must be between 0 and 1'')
      else if beta params < 0 \<or> beta params > 1 then
        Inl (ParameterRangeError ''Beta must be between 0 and 1'')
      else if alpha params + beta params \<ge> 1 then
        Inl (ParameterRangeError ''Alpha + Beta must be less than 1 for GARCH stability'')
      else if theta params < 0 \<or> theta params > 1 then
        Inl (ParameterRangeError ''Theta must be between 0 and 1'')
      else if switchProb params < 0 \<or> switchProb params > 1 then
        Inl (ParameterRangeError ''Switch probability must be between 0 and 1'')
      else if numPaths params < 100 \<or> numPaths params > 10000 then
        Inl (ParameterRangeError ''Number of paths must be between 100 and 10000'')
      else if numSteps params < 10 \<or> numSteps params > 1000 then
        Inl (ParameterRangeError ''Number of steps must be between 10 and 1000'')
      else Inr ())"

text \<open>
  The loop of \<open>calculateReturns\<close> runs over \<open>i = 1 .. length - 1\<close> and reads
  \<open>prices[i - 1]\<close> and \<open>prices[i]\<close>: the recursion below walks the same adjacent pairs.
  Only the earlier close of a pair is checked, so the quotient is finite; its logarithm
  is taken by \<open>Math.log\<close>.
\<close>

fun returnsLoop :: "PricePoint list \<Rightarrow> jsnum list \<Rightarrow> error + jsnum list" where
  "returnsLoop (p # q # ps) returns =
     (if close p \<le> 0 then Inl (InputError ''Invalid price data: non-positive close price'')
      else returnsLoop (q # ps) (returns @ [jslog (close q / close p)]))"
| "returnsLoop ps returns = Inr returns"

definition calculateReturns :: "PricePoint list \<Rightarrow> error + jsnum list" where
  "calculateReturns prices =
     (if length prices < 2 then
        Inl (InputError ''Need at least 2 price points to calculate returns'')
      else returnsLoop prices [])"

definition garchStep :: "real \<Rightarrow> real \<Rightarrow> real \<Rightarrow> real list \<Rightarrow> nat \<Rightarrow> real list \<Rightarrow> real list" where
  \<comment> \<open>The body of the recursion loop at index \<open>t\<close>: it appends \<open>volatilities[t]\<close>.\<close>
  "garchStep omega a b returns t volatilities =
     (let variance = omega + a * (returns ! (t - 1)) ^ 2 + b * (volatilities ! (t - 1)) ^ 2;
          boundedVariance = max (min variance MAX_VARIANCE) MIN_VARIANCE
      in volatilities @ [sqrt boundedVariance])"

definition calculateGARCHVolatility :: "real list \<Rightarrow> real \<Rightarrow> real \<Rightarrow> error + real list" where
  "calculateGARCHVolatility returns a b =
     (if length returns = 0 then Inl (InputError ''No returns data provided'')
      else if a < 0 \<or> b < 0 \<or> a + b \<ge> 1 then
        Inl (ParameterRangeError ''Invalid GARCH parameters: alpha + beta must be < 1'')
      else
        let n = length returns in
        if n = 1 then Inr [sqrt (max ((returns ! 0) ^ 2) MIN_VARIANCE)]
        else
          let meanReturn = sum_list returns / real n;
              sampleVar = sum_list (map (\<lambda>r. (r - meanReturn) ^ 2) returns) / (real n - 1);
              adjustedSampleVar = max sampleVar MIN_VARIANCE;
              omega = adjustedSampleVar * (1 - a - b)
          in Inr (fold (garchStep omega a b returns) [1..<n] [sqrt adjustedSampleVar]))"

section \<open>Monte Carlo simulation\<close>

text \<open>
  \<open>Math.random\<close> is a global source. Its successive results are the sequence
  \<open>rnd 0, rnd 1, ...\<close>, and the state of the source is the position \<open>k\<close> of the next
  result: a function that draws takes \<open>k\<close> and returns the new position.

  \<open>Math.random\<close> returns a number in [0, 1). At 0 the logarithm in \<open>randomNormal\<close> is
  \<open>-Infinity\<close> and the normal variable is not finite, which the real-valued model of the
  simulation does not cover: the theorems about simulated prices take the results in the
  open interval (0, 1).
\<close>

definition uniformDraws :: "(nat \<Rightarrow> real) \<Rightarrow> bool" where
  "uniformDraws rnd \<longleftrightarrow> (\<forall>i. 0 < rnd i \<and> rnd i < 1)"

definition randomNormal :: "(nat \<Rightarrow> real) \<Rightarrow> nat \<Rightarrow> real \<times> nat" where
  "randomNormal rnd k =
     (let u = rnd k; v = rnd (k + 1)
      in (sqrt (- 2 * ln u) * cos (2 * pi * v), k + 2))"

definition dt :: real where "dt = 1 / 252"

text \<open>
  One pass of the inner loop. The state is the path so far, the current price, the current
  volatility and the position in the random sequence.
\<close>

definition simStep ::
  "(nat \<Rightarrow> real) \<Rightarrow> real \<Rightarrow> real \<Rightarrow> real \<Rightarrow> real \<Rightarrow>
   real list \<times> real \<times> real \<times> nat \<Rightarrow> real list \<times> real \<times> real \<times> nat" where
  "simStep rnd drift0 omega a b s =
     (case s of (pathPrices, price, vol, k) \<Rightarrow>
        (case randomNormal rnd k of (z, k') \<Rightarrow>
           let ret = drift0 * dt - 0.5 * vol * vol * dt + vol * sqrt dt * z;
               price1 = price * exp ret;
               price2 = (if price1 < MIN_PRICE then MIN_PRICE else price1);
               variance = omega + a * ret ^ 2 + b * vol ^ 2;
               boundedVariance = max (min variance MAX_VARIANCE) MIN_VARIANCE
           in (pathPrices @ [price2], price2, sqrt boundedVariance, k')))"

fun stepLoop ::
  "nat \<Rightarrow> (nat \<Rightarrow> real) \<Rightarrow> real \<Rightarrow> real \<Rightarrow> real \<Rightarrow> real \<Rightarrow>
   real list \<times> real \<times> real \<times> nat \<Rightarrow> real list \<times> real \<times> real \<times> nat" where
  "stepLoop 0 rnd drift0 omega a b s = s"
| "stepLoop (Suc n) rnd drift0 omega a b s =
     stepLoop n rnd drift0 omega a b (simStep rnd drift0 omega a b s)"

definition simulatePath ::
  "(nat \<Rightarrow> real) \<Rightarrow> nat \<Rightarrow> real \<Rightarrow> real \<Rightarrow> real \<Rightarrow> real \<Rightarrow> real \<Rightarrow> real \<Rightarrow> nat
   \<Rightarrow> real list \<times> nat" where
  \<comment> \<open>The body of the outer loop: one path, from the position \<open>k\<close>.\<close>
  "simulatePath rnd steps initialPrice initialVolatility drift0 omega a b k =
     (case stepLoop steps rnd drift0 omega a b ([initialPrice], initialPrice, initialVolatility, k)
      of (pathPrices, price, vol, k') \<Rightarrow> (pathPrices, k'))"

fun pathLoop ::
  "nat \<Rightarrow> (nat \<Rightarrow> real) \<Rightarrow> nat \<Rightarrow> real \<Rightarrow> real \<Rightarrow> real \<Rightarrow> real \<Rightarrow> real \<Rightarrow> real
   \<Rightarrow> real list list \<times> nat \<Rightarrow> real list list \<times> nat" where
  "pathLoop 0 rnd steps initialPrice initialVolatility drift0 omega a b s = s"
| "pathLoop (Suc n) rnd steps initialPrice initialVolatility drift0 omega a b s =
     (case s of (ps, k) \<Rightarrow>
        (case simulatePath rnd steps initialPrice initialVolatility drift0 omega a b k of
           (pathPrices, k') \<Rightarrow>
             pathLoop n rnd steps initialPrice initialVolatility drift0 omega a b
               (ps @ [pathPrices], k')))"

section \<open>Statistics of the terminal prices\<close>

definition digit_char :: "nat \<Rightarrow> char" where
  "digit_char n = ''0123456789'' ! n"

fun string_of_nat :: "nat \<Rightarrow> string" where
  "string_of_nat n =
     (if n < 10 then [digit_char n] else string_of_nat (n div 10) @ [digit_char (n mod 10)])"

declare string_of_nat.simps [simp del]

definition percentileKey :: "nat \<Rightarrow> string" where
  \<comment> \<open>The template literal that names a percentile: p5, p10, ...\<close>
  "percentileKey p = CHR ''p'' # string_of_nat p"

definition binIndex :: "real \<Rightarrow> real \<Rightarrow> real \<Rightarrow> jsnum" where
  "binIndex price minPrice binSize =
     jsmin (jsfloor (jsdiv (price - minPrice) binSize)) (Fin (50 - 1))"

text \<open>
  The \<open>forEach\<close> over the terminal prices: \<open>histogram[binIndex].count++\<close> throws a
  TypeError when \<open>histogram[binIndex]\<close> is \<open>undefined\<close>.
\<close>

fun fillHistogram ::
  "real list \<Rightarrow> real \<Rightarrow> real \<Rightarrow> HistogramBin list \<Rightarrow> error + HistogramBin list" where
  "fillHistogram [] minPrice binSize h = Inr h"
| "fillHistogram (price # prices) minPrice binSize h =
     (case array_index (binIndex price minPrice binSize) (length h) of
        None \<Rightarrow> Inl (TypeError ''Cannot read properties of undefined (reading count)'')
      | Some i \<Rightarrow>
          fillHistogram prices minPrice binSize (h[i := (h ! i)\<lparr>count := count (h ! i) + 1\<rparr>]))"

definition percentileIndex :: "nat \<Rightarrow> nat \<Rightarrow> nat" where
  "percentileIndex p n = nat \<lfloor>(real p / 100) * (real n - 1)\<rfloor>"

text \<open>
  \<open>calculateStatistics\<close> is private. Its only caller is \<open>runMonteCarloSimulation\<close>,
  which passes at least 100 paths of at least 11 prices each, so every array read below is
  in range and \<open>numPaths\<close> is not zero; the reads are written with \<open>!\<close> and \<open>last\<close>.
  The comparator of the sort is \<open>a - b\<close>: ascending order.
\<close>

definition calculateStatistics :: "real list list \<Rightarrow> real \<Rightarrow> error + AnalyticsResult" where
  "calculateStatistics ps initialPrice =
     (let n = length ps;
          finalPrices = map last ps;
          upside20Count = length (filter (\<lambda>price. price \<ge> initialPrice * 1.2) finalPrices);
          downside10Count = length (filter (\<lambda>price. price \<le> initialPrice * 0.9) finalPrices);
          probs = \<lparr>upside20 = real upside20Count / real n,
                   downside10 = real downside10Count / real n\<rparr>;
          sortedPrices = sort finalPrices;
          minPrice = sortedPrices ! 0;
          maxPrice = sortedPrices ! (length sortedPrices - 1);
          numBins = 50;
          binSize = (maxPrice - minPrice) / real numBins;
          histogram0 = map (\<lambda>i. \<lparr>bin = minPrice + real i * binSize, count = 0\<rparr>) [0..<numBins]
      in case fillHistogram finalPrices minPrice binSize histogram0 of
           Inl e \<Rightarrow> Inl e
         | Inr h \<Rightarrow>
             let pcts = fold (\<lambda>p m. m(percentileKey p \<mapsto> sortedPrices ! percentileIndex p n))
                          [5, 10, 25, 50, 75, 90, 95] Map.empty;
                 var95Index = nat \<lfloor>0.05 * real n\<rfloor>;
                 var99Index = nat \<lfloor>0.01 * real n\<rfloor>;
                 v95 = initialPrice - sortedPrices ! var95Index;
                 v99 = initialPrice - sortedPrices ! var99Index;
                 es95 = initialPrice
                          - sum_list (take (var95Index + 1) sortedPrices) / real (var95Index + 1);
                 es99 = initialPrice
                          - sum_list (take (var99Index + 1) sortedPrices) / real (var99Index + 1)
             in Inr \<lparr>paths = ps, probabilities = probs, histogram = h, percentiles = pcts,
                     var95 = v95, var99 = v99,
                     expectedShortfall95 = es95, expectedShortfall99 = es99,
                     currentVolatility = 0, trend = 0, drift = 0\<rparr>)"

definition runMonteCarloSimulation ::
  "(nat \<Rightarrow> real) \<Rightarrow> real \<Rightarrow> AnalyticsParams \<Rightarrow> real \<Rightarrow> real \<Rightarrow> error + AnalyticsResult" where
  "runMonteCarloSimulation rnd initialPrice params initialVolatility drift0 =
     (case validateParams params of
        Inl e \<Rightarrow> Inl e
      | Inr u \<Rightarrow>
          if initialPrice \<le> 0 then Inl (InputError ''Initial price must be positive'')
          else if initialVolatility \<le> 0 then
            Inl (InputError ''Initial volatility must be positive'')
          else
            let omega = initialVolatility * initialVolatility * (1 - alpha params - beta params);
                (ps, k) = pathLoop (numPaths params) rnd (numSteps params) initialPrice
                            initialVolatility drift0 omega (alpha params) (beta params) ([], 0)
            in calculateStatistics ps initialPrice)"

section \<open>Regime analysis\<close>

text \<open>
  The run-length loop over \<open>regimes[1..]\<close>: the state is the current regime, the current
  duration and the two lists of finished durations.
\<close>

fun durationLoop ::
  "real list \<Rightarrow> real \<Rightarrow> nat \<Rightarrow> nat list \<Rightarrow> nat list \<Rightarrow> real \<times> nat \<times> nat list \<times> nat list" where
  "durationLoop [] currentRegime currentDuration bullDurations bearDurations =
     (currentRegime, currentDuration, bullDurations, bearDurations)"
| "durationLoop (r # rs) currentRegime currentDuration bullDurations bearDurations =
     (if r = currentRegime then
        durationLoop rs currentRegime (currentDuration + 1) bullDurations bearDurations
      else if currentRegime > 0 then
        durationLoop rs r 1 (bullDurations @ [currentDuration]) bearDurations
      else
        durationLoop rs r 1 bullDurations (bearDurations @ [currentDuration]))"

definition regimeDurations :: "real list \<Rightarrow> nat list \<times> nat list" where
  \<comment> \<open>On the empty array \<open>regimes[0]\<close> is \<open>undefined\<close>, the loop does not run and
      \<open>undefined > 0\<close> is false: the duration 1 is pushed on the bear list.\<close>
  "regimeDurations regimes =
     (case regimes of
        [] \<Rightarrow> ([], [1])
      | r # rs \<Rightarrow>
          (case durationLoop rs r 1 [] [] of
             (currentRegime, currentDuration, bullDurations, bearDurations) \<Rightarrow>
               if currentRegime > 0 then (bullDurations @ [currentDuration], bearDurations)
               else (bullDurations, bearDurations @ [currentDuration])))"

definition meanOrZero :: "real list \<Rightarrow> real" where
  \<comment> \<open>\<open>xs.length > 0 ? sum / xs.length : 0\<close>\<close>
  "meanOrZero xs = (if length xs > 0 then sum_list xs / real (length xs) else 0)"

definition sampleStdOrZero :: "real list \<Rightarrow> real \<Rightarrow> jsnum" where
  \<comment> \<open>\<open>xs.length > 0 ? Math.sqrt(sum of squared deviations / (xs.length - 1)) : 0\<close>\<close>
  "sampleStdOrZero xs m =
     (if length xs > 0 then
        jssqrt (jsdiv (sum_list (map (\<lambda>r. (r - m) ^ 2) xs)) (real (length xs) - 1))
      else Fin 0)"

definition analyzeRegime :: "real list \<Rightarrow> real list \<Rightarrow> error + RegimeAnalysis" where
  "analyzeRegime returns regimes =
     (if length returns \<noteq> length regimes then
        Inl (InputError ''Returns and regimes arrays must have the same length'')
      else
        let bullCount = length (filter (\<lambda>r. r > 0) regimes);
            bearCount = length (filter (\<lambda>r. r < 0) regimes);
            totalCount = length regimes;
            bullProb = jsdiv (real bullCount) (real totalCount);
            bearProb = jsdiv (real bearCount) (real totalCount);
            (bullDurations, bearDurations) = regimeDurations regimes;
            durations = \<lparr>bull = meanOrZero (map real bullDurations),
                         bear = meanOrZero (map real bearDurations)\<rparr>;
            bullReturns = map fst (filter (\<lambda>(r, g). g > 0) (zip returns regimes));
            bearReturns = map fst (filter (\<lambda>(r, g). g < 0) (zip returns regimes));
            rets = \<lparr>bull = meanOrZero bullReturns, bear = meanOrZero bearReturns\<rparr>;
            bullMean = meanOrZero bullReturns;
            bearMean = meanOrZero bearReturns;
            vols = \<lparr>bull = sampleStdOrZero bullReturns bullMean,
                    bear = sampleStdOrZero bearReturns bearMean\<rparr>
        in Inr \<lparr>bullMarketProbability = bullProb, bearMarketProbability = bearProb,
                regimeDuration = durations, regimeVolatility = vols, regimeReturns = rets\<rparr>)"

section \<open>Concrete inputs\<close>

definition pricePoint :: "real \<Rightarrow> PricePoint" where
  \<comment> \<open>A price point whose close is \<open>c\<close>.\<close>
  "pricePoint c = \<lparr>date = 0, open_price = c, high = c, low = c, close = c, volume = 0\<rparr>"

definition exampleParams :: AnalyticsParams where
  \<comment> \<open>Parameters within every bound of \<open>validateParams\<close>.\<close>
  "exampleParams = \<lparr>alpha = 0, beta = 0, theta = 1 / 20, switchProb = 1 / 20,
                      numPaths = 100, numSteps = 10\<rparr>"

definition exampleRandom :: "nat \<Rightarrow> real" where
  \<comment> \<open>A sequence of results of \<open>Math.random\<close>, all inside (0, 1). The draws at the
      positions 18 and 19 give the normal variable 1, every other pair gives 0.\<close>
  "exampleRandom k =
     (if k = 18 then exp (- 2) else if k = 19 then 1 / 6 else if even k then 1 / 2 else 1 / 4)"

section \<open>Notions of the statements\<close>

text \<open>
  The paths that the two loops of \<open>runMonteCarloSimulation\<close> build: path \<open>j\<close> starts at
  the position \<open>2 * numSteps * j\<close> of the random sequence (lemma \<open>pathLoop_eq\<close> below
  shows that the outer loop computes this list).
\<close>

definition generatedPaths ::
  "(nat \<Rightarrow> real) \<Rightarrow> real \<Rightarrow> AnalyticsParams \<Rightarrow> real \<Rightarrow> real \<Rightarrow> real list list" where
  "generatedPaths rnd initialPrice params initialVolatility drift0 =
     map (\<lambda>j. fst (simulatePath rnd (numSteps params) initialPrice initialVolatility drift0
                     (initialVolatility * initialVolatility * (1 - alpha params - beta params))
                     (alpha params) (beta params) (2 * numSteps params * j)))
       [0..<numPaths params]"

definition terminalPrices :: "AnalyticsResult \<Rightarrow> real list" where
  "terminalPrices r = map last (paths r)"

section \<open>Return series\<close>

lemma returnsLoop_raises:
  "is_InputError (returnsLoop ps acc) \<longleftrightarrow> (\<exists>p \<in> set (butlast ps). close p \<le> 0)"
  by (induction ps acc rule: returnsLoop.induct) auto

lemma returnsLoop_length:
  "returnsLoop ps acc = Inr rs \<Longrightarrow> length rs = length acc + (length ps - 1)"
  by (induction ps acc rule: returnsLoop.induct) (auto split: if_splits)

text \<open>
  What the code does: it raises when there are fewer than two points or when a close other
  than the last one is not positive, and a series it returns has one entry less than the
  price list.
\<close>

lemma calculateReturns_raises:
  "is_InputError (calculateReturns prices)
     \<longleftrightarrow> (length prices < 2 \<or> (\<exists>p \<in> set (butlast prices). close p \<le> 0))"
  by (simp add: calculateReturns_def returnsLoop_raises)

lemma calculateReturns_length:
  "calculateReturns prices = Inr rs \<Longrightarrow> length rs = length prices - 1"
  by (auto simp: calculateReturns_def dest: returnsLoop_length split: if_splits)

text \<open>
  Claim C2: \<open>calculateReturns\<close> raises an input error exactly when the list has fewer
  than two prices or any close is not positive. The code does not check the last close:
  on the closes 100 and -5 it raises nothing and returns the series whose one entry is
  NaN, the logarithm of a negative quotient.
\<close>

theorem calculateReturns_last_close_unchecked:
  "calculateReturns [pricePoint 100, pricePoint (- 5)] = Inr [NaN]"
  by (simp add: calculateReturns_def pricePoint_def jslog_def)

section \<open>GARCH parameters\<close>

lemma length_fold_garchStep:
  "length (fold (garchStep omega a b returns) ts vs) = length vs + length ts"
  by (induction ts arbitrary: vs) (simp_all add: garchStep_def Let_def)

text \<open>
  Claim C6: on a non-empty return series \<open>calculateGARCHVolatility\<close> raises a parameter
  range error exactly when alpha is outside [0,1], or beta is outside [0,1], or
  alpha + beta is at least 1; for alpha and beta in [0,1] with alpha + beta below 1 it
  returns a volatility series (of the length of the return series).
\<close>

theorem calculateGARCHVolatility_parameter_range:
  assumes "returns \<noteq> []"
  shows "(is_ParameterRangeError (calculateGARCHVolatility returns a b)
            \<longleftrightarrow> (a < 0 \<or> a > 1 \<or> b < 0 \<or> b > 1 \<or> a + b \<ge> 1))
       \<and> (0 \<le> a \<and> a \<le> 1 \<and> 0 \<le> b \<and> b \<le> 1 \<and> a + b < 1
            \<longrightarrow> (\<exists>vols. calculateGARCHVolatility returns a b = Inr vols
                        \<and> length vols = length returns))"
proof -
  have n: "length returns \<noteq> 0" using assms by simp
  have raise: "is_ParameterRangeError (calculateGARCHVolatility returns a b)
            \<longleftrightarrow> (a < 0 \<or> b < 0 \<or> a + b \<ge> 1)"
    using n by (simp add: calculateGARCHVolatility_def Let_def)
  have "(a < 0 \<or> b < 0 \<or> a + b \<ge> 1) \<longleftrightarrow> (a < 0 \<or> a > 1 \<or> b < 0 \<or> b > 1 \<or> a + b \<ge> 1)"
    by linarith
  moreover have "\<exists>vols. calculateGARCHVolatility returns a b = Inr vols \<and> length vols = length returns"
    if "0 \<le> a \<and> a \<le> 1 \<and> 0 \<le> b \<and> b \<le> 1 \<and> a + b < 1"
  proof (cases "length returns = 1")
    case True
    then show ?thesis using that by (simp add: calculateGARCHVolatility_def)
  next
    case False
    then have "Suc 0 \<le> length returns" using n by (cases returns) simp_all
    then show ?thesis using that n False
      by (simp add: calculateGARCHVolatility_def Let_def length_fold_garchStep)
  qed
  ultimately show ?thesis using raise by blast
qed

theorem calculateGARCHVolatility_parameter_range_witness:
  "[1 / 100, - 1 / 50] \<noteq> ([] :: real list)
   \<and> is_ParameterRangeError (calculateGARCHVolatility [1 / 100, - 1 / 50] (1 / 2) (3 / 5))
   \<and> is_ParameterRangeError (calculateGARCHVolatility [1 / 100, - 1 / 50] (3 / 2) (- 1))
   \<and> (\<exists>vols. calculateGARCHVolatility [1 / 100, - 1 / 50] (1 / 10) (4 / 5) = Inr vols
               \<and> length vols = 2)"
  using calculateGARCHVolatility_parameter_range [of "[1 / 100, - 1 / 50]" "1 / 2" "3 / 5"]
        calculateGARCHVolatility_parameter_range [of "[1 / 100, - 1 / 50]" "3 / 2" "- 1"]
        calculateGARCHVolatility_parameter_range [of "[1 / 100, - 1 / 50]" "1 / 10" "4 / 5"]
  by (simp add: numeral_2_eq_2)

section \<open>Regime analysis: probabilities and volatility\<close>





lemma analyzeRegime_Inr:
  assumes "length returns = length regimes"
  shows "\<exists>res. analyzeRegime returns regimes = Inr res
     \<and> bullMarketProbability res =
         jsdiv (real (length (filter (\<lambda>g. g > 0) regimes))) (real (length regimes))
     \<and> bearMarketProbability res =
         jsdiv (real (length (filter (\<lambda>g. g < 0) regimes))) (real (length regimes))
     \<and> bull (regimeVolatility res) =
         sampleStdOrZero (map fst (filter (\<lambda>(r, g). g > 0) (zip returns regimes)))
           (meanOrZero (map fst (filter (\<lambda>(r, g). g > 0) (zip returns regimes))))
     \<and> bear (regimeVolatility res) =
         sampleStdOrZero (map fst (filter (\<lambda>(r, g). g < 0) (zip returns regimes)))
           (meanOrZero (map fst (filter (\<lambda>(r, g). g < 0) (zip returns regimes))))"
  using assms by (simp add: analyzeRegime_def Let_def split: prod.splits)


text \<open>
  Claim C8: for a non-empty regime array whose labels are all +1 or -1 and whose length is
  that of the return series, \<open>analyzeRegime\<close> returns a result whose bull and bear
  probabilities add up to 1.
\<close>

theorem analyzeRegime_probabilities_sum:
  assumes "regimes \<noteq> []"
    and "\<forall>g \<in> set regimes. g = 1 \<or> g = - 1"
    and "length returns = length regimes"
  shows "\<exists>res. analyzeRegime returns regimes = Inr res
           \<and> jsadd (bullMarketProbability res) (bearMarketProbability res) = Fin 1"
proof -
  obtain res where res: "analyzeRegime returns regimes = Inr res"
    and bu: "bullMarketProbability res =
               jsdiv (real (length (filter (\<lambda>g. g > 0) regimes))) (real (length regimes))"
    and be: "bearMarketProbability res =
               jsdiv (real (length (filter (\<lambda>g. g < 0) regimes))) (real (length regimes))"
    using analyzeRegime_Inr [OF assms(3)] by blast
  have "length (filter (\<lambda>g. g > 0) regimes) + length (filter (\<lambda>g. g < 0) regimes)
          = length regimes"
    using assms(2) by (induction regimes) auto
  then have "real (length (filter (\<lambda>g. g > 0) regimes))
               + real (length (filter (\<lambda>g. g < 0) regimes)) = real (length regimes)"
    by linarith
  then have "jsadd (bullMarketProbability res) (bearMarketProbability res) = Fin 1"
    using assms(1) by (simp add: bu be jsdiv_def add_divide_distrib [symmetric])
  then show ?thesis using res by blast
qed

theorem analyzeRegime_probabilities_sum_witness:
  "[1, - 1, - 1] \<noteq> ([] :: real list)
   \<and> length [1 / 100, - 1 / 50, 3 / 100 :: real] = length [1, - 1, - 1 :: real]
   \<and> jsadd (bullMarketProbability (projr (analyzeRegime [1 / 100, - 1 / 50, 3 / 100] [1, - 1, - 1])))
            (bearMarketProbability (projr (analyzeRegime [1 / 100, - 1 / 50, 3 / 100] [1, - 1, - 1])))
       = Fin 1"
  using analyzeRegime_probabilities_sum [of "[1, - 1, - 1]" "[1 / 100, - 1 / 50, 3 / 100]"]
  by auto








section \<open>The simulation loops\<close>

lemma simStep_shape:
  "\<exists>p v. simStep rnd d om a b (pp, pr, vol, k) = (pp @ [p], p, v, k + 2) \<and> MIN_PRICE \<le> p"
  by (simp add: simStep_def randomNormal_def Let_def)

lemma stepLoop_shape:
  "\<exists>new p v. stepLoop n rnd d om a b (pp, pr, vol, k) = (pp @ new, p, v, k + 2 * n)
      \<and> length new = n \<and> (\<forall>x \<in> set new. MIN_PRICE \<le> x)"
proof (induction n arbitrary: pp pr vol k)
  case 0
  then show ?case by simp
next
  case (Suc n)
  obtain p v where s: "simStep rnd d om a b (pp, pr, vol, k) = (pp @ [p], p, v, k + 2)" and p: "MIN_PRICE \<le> p"
    using simStep_shape by blast
  obtain new p' v' where l: "stepLoop n rnd d om a b (pp @ [p], p, v, k + 2) = ((pp @ [p]) @ new, p', v', k + 2 + 2 * n)"
      and n: "length new = n" "\<forall>x \<in> set new. MIN_PRICE \<le> x"
    using Suc.IH by blast
  have "stepLoop (Suc n) rnd d om a b (pp, pr, vol, k) = (pp @ (p # new), p', v', k + 2 * Suc n)"
    using s l by simp
  moreover have "length (p # new) = Suc n" using n by simp
  moreover have "\<forall>x \<in> set (p # new). MIN_PRICE \<le> x" using n p by simp
  ultimately show ?case by blast
qed

lemma simulatePath_shape:
  "\<exists>new. simulatePath rnd steps ip vol d om a b k = (ip # new, k + 2 * steps)
      \<and> length new = steps \<and> (\<forall>x \<in> set new. MIN_PRICE \<le> x)"
proof -
  obtain new p v where "stepLoop steps rnd d om a b ([ip], ip, vol, k) = ([ip] @ new, p, v, k + 2 * steps)"
      and "length new = steps" "\<forall>x \<in> set new. MIN_PRICE \<le> x"
    using stepLoop_shape by blast
  then show ?thesis by (simp add: simulatePath_def)
qed

lemma pathLoop_eq:
  "pathLoop n rnd steps ip vol d om a b (ps, k) =
     (ps @ map (\<lambda>j. fst (simulatePath rnd steps ip vol d om a b (k + 2 * steps * j))) [0..<n],
      k + 2 * steps * n)"
proof (induction n arbitrary: ps k)
  case 0
  then show ?case by simp
next
  case (Suc n)
  obtain new where sp: "simulatePath rnd steps ip vol d om a b k = (ip # new, k + 2 * steps)"
    using simulatePath_shape by blast
  have "pathLoop (Suc n) rnd steps ip vol d om a b (ps, k)
        = pathLoop n rnd steps ip vol d om a b (ps @ [ip # new], k + 2 * steps)"
    using sp by simp
  also have "\<dots> = ((ps @ [ip # new]) @ map (\<lambda>j. fst (simulatePath rnd steps ip vol d om a b (k + 2 * steps + 2 * steps * j))) [0..<n],
      k + 2 * steps + 2 * steps * n)"
    by (rule Suc.IH)
  also have "map (\<lambda>j. fst (simulatePath rnd steps ip vol d om a b (k + 2 * steps + 2 * steps * j))) [0..<n]
      = map (\<lambda>j. fst (simulatePath rnd steps ip vol d om a b (k + 2 * steps * j))) [Suc 0..<Suc n]"
    by (simp add: map_Suc_upt[symmetric] del: upt_Suc add: algebra_simps)
  finally show ?case using sp
    by (simp add: upt_conv_Cons del: upt_Suc)
qed

lemma validateParams_Inr:
  "validateParams params = Inr u \<longleftrightarrow>
     0 \<le> alpha params \<and> alpha params \<le> 1 \<and> 0 \<le> beta params \<and> beta params \<le> 1
     \<and> alpha params + beta params < 1 \<and> 0 \<le> theta params \<and> theta params \<le> 1
     \<and> 0 \<le> switchProb params \<and> switchProb params \<le> 1
     \<and> 100 \<le> numPaths params \<and> numPaths params \<le> 10000
     \<and> 10 \<le> numSteps params \<and> numSteps params \<le> 1000"
  by (auto simp: validateParams_def)

lemma run_eq:
  "runMonteCarloSimulation rnd ip params vol d =
     (case validateParams params of Inl e \<Rightarrow> Inl e
      | Inr u \<Rightarrow> if ip \<le> 0 then Inl (InputError ''Initial price must be positive'')
          else if vol \<le> 0 then Inl (InputError ''Initial volatility must be positive'')
          else calculateStatistics (generatedPaths rnd ip params vol d) ip)"
  by (simp add: runMonteCarloSimulation_def generatedPaths_def pathLoop_eq Let_def split: sum.splits)

lemma run_Inr:
  assumes "runMonteCarloSimulation rnd ip params vol d = Inr r"
  shows "validateParams params = Inr ()" "0 < ip" "0 < vol"
    "calculateStatistics (generatedPaths rnd ip params vol d) ip = Inr r"
  using assms by (auto simp: run_eq split: sum.splits if_splits)

lemma calculateStatistics_fields:
  assumes "calculateStatistics ps ip = Inr r"
  shows "paths r = ps"
    and "currentVolatility r = 0" and "trend r = 0" and "drift r = 0"
    and "var95 r = ip - sort (map last ps) ! nat \<lfloor>0.05 * real (length ps)\<rfloor>"
    and "var99 r = ip - sort (map last ps) ! nat \<lfloor>0.01 * real (length ps)\<rfloor>"
    and "expectedShortfall95 r = ip - sum_list (take (nat \<lfloor>0.05 * real (length ps)\<rfloor> + 1) (sort (map last ps)))
            / real (nat \<lfloor>0.05 * real (length ps)\<rfloor> + 1)"
    and "expectedShortfall99 r = ip - sum_list (take (nat \<lfloor>0.01 * real (length ps)\<rfloor> + 1) (sort (map last ps)))
            / real (nat \<lfloor>0.01 * real (length ps)\<rfloor> + 1)"
    and "percentiles r = fold (\<lambda>p m. m(percentileKey p \<mapsto> sort (map last ps) ! percentileIndex p (length ps)))
                          [5, 10, 25, 50, 75, 90, 95] Map.empty"
    and "fillHistogram (map last ps) (sort (map last ps) ! 0)
           ((sort (map last ps) ! (length (sort (map last ps)) - 1) - sort (map last ps) ! 0) / real (50::nat))
           (map (\<lambda>i. \<lparr>bin = sort (map last ps) ! 0 + real i *
               ((sort (map last ps) ! (length (sort (map last ps)) - 1) - sort (map last ps) ! 0) / real (50::nat)), count = 0\<rparr>) [0..<50])
         = Inr (histogram r)"
  using assms unfolding calculateStatistics_def Let_def
  by (auto split: sum.splits)

lemma generatedPaths_length: "length (generatedPaths rnd ip params vol d) = numPaths params"
  by (simp add: generatedPaths_def)

lemma generatedPaths_shape:
  assumes "p \<in> set (generatedPaths rnd ip params vol d)"
  shows "\<exists>new. p = ip # new \<and> length new = numSteps params \<and> (\<forall>x \<in> set new. MIN_PRICE \<le> x)"
proof -
  obtain j where "p = fst (simulatePath rnd (numSteps params) ip vol d
                     (vol * vol * (1 - alpha params - beta params))
                     (alpha params) (beta params) (2 * numSteps params * j))"
    using assms by (auto simp: generatedPaths_def)
  then show ?thesis
    using simulatePath_shape [of rnd "numSteps params" ip vol d "vol * vol * (1 - alpha params - beta params)"
        "alpha params" "beta params" "2 * numSteps params * j"]
    by auto
qed

section \<open>Sorting and the histogram\<close>

lemma sorted_nth0_Min:
  fixes ys :: "real list"
  assumes "sorted ys" "ys \<noteq> []"
  shows "ys ! 0 = Min (set ys)"
proof -
  obtain a as where ys: "ys = a # as" using assms(2) by (cases ys) auto
  have "\<forall>y \<in> set ys. a \<le> y" using assms(1) ys by auto
  then have "Min (set ys) = a" using ys by (intro Min_eqI) auto
  then show ?thesis using ys by simp
qed

lemma sorted_last_Max:
  fixes ys :: "real list"
  assumes "sorted ys" "ys \<noteq> []"
  shows "ys ! (length ys - 1) = Max (set ys)"
proof -
  have "y \<le> ys ! (length ys - 1)" if "y \<in> set ys" for y
  proof -
    from that obtain i where i: "i < length ys" "ys ! i = y"
      unfolding in_set_conv_nth by blast
    have "ys ! i \<le> ys ! (length ys - 1)"
      by (rule sorted_nth_mono [OF assms(1)]) (use i in simp_all)
    then show ?thesis using i by simp
  qed
  moreover have "ys ! (length ys - 1) \<in> set ys" using assms(2) by simp
  ultimately have "Max (set ys) = ys ! (length ys - 1)" by (intro Max_eqI) auto
  then show ?thesis by simp
qed

lemma sort_not_Nil: "xs \<noteq> [] \<Longrightarrow> sort xs \<noteq> ([] :: real list)"
proof
  assume "xs \<noteq> []" "sort xs = []"
  then have "length (sort xs) = 0" by simp
  then show False using \<open>xs \<noteq> []\<close> by simp
qed

lemma sort_min: "xs \<noteq> [] \<Longrightarrow> sort xs ! 0 = Min (set (xs :: real list))"
  using sorted_nth0_Min [of "sort xs"] sort_not_Nil [of xs] by simp

lemma sort_max: "xs \<noteq> [] \<Longrightarrow> sort xs ! (length (sort xs) - 1) = Max (set (xs :: real list))"
  using sorted_last_Max [of "sort xs"] sort_not_Nil [of xs] by simp

lemma array_index_binIndex:
  assumes "0 < bs" "mn \<le> p"
  shows "array_index (binIndex p mn bs) 50 = Some (min (nat \<lfloor>(p - mn) / bs\<rfloor>) 49)"
proof -
  let ?x = "(p - mn) / bs"
  have x: "0 \<le> ?x" using assms by simp
  then have fl: "0 \<le> \<lfloor>?x\<rfloor>" by simp
  have b: "binIndex p mn bs = Fin (min (of_int \<lfloor>?x\<rfloor>) 49)"
    using assms by (simp add: binIndex_def jsdiv_def)
  have "min (of_int a) (49::real) = of_int (min a 49)" for a :: int
    by (simp add: min_def)
  then have m: "min (of_int \<lfloor>?x\<rfloor>) (49::real) = of_int (min \<lfloor>?x\<rfloor> 49)" .
  have "array_index (Fin (of_int (min \<lfloor>?x\<rfloor> 49))) 50 = Some (nat (min \<lfloor>?x\<rfloor> 49))"
    using fl by (simp add: array_index_def)
  moreover have "0 \<le> a \<Longrightarrow> nat (min a 49) = min (nat a) 49" for a :: int
    by linarith
  then have "nat (min \<lfloor>?x\<rfloor> 49) = min (nat \<lfloor>?x\<rfloor>) 49"
    using fl by blast
  ultimately show ?thesis using b m by simp
qed

lemma sum_list_count_update:
  assumes "i < length h"
  shows "sum_list (map count (h[i := (h ! i)\<lparr>count := count (h ! i) + 1\<rparr>])) = sum_list (map count h) + 1"
proof -
  have "map count (h[i := (h ! i)\<lparr>count := count (h ! i) + 1\<rparr>]) = (map count h)[i := count (h ! i) + 1]"
    by (simp add: map_update)
  moreover have "sum_list ((map count h)[i := count (h ! i) + 1]) = sum_list (map count h) + (count (h ! i) + 1) - (map count h) ! i"
    using assms by (simp add: sum_list_update)
  ultimately show ?thesis using assms by simp
qed

lemma fillHistogram_ok:
  assumes "0 < bs" "\<forall>p \<in> set prices. mn \<le> p" "length h = 50"
  shows "\<exists>h'. fillHistogram prices mn bs h = Inr h' \<and> length h' = 50 \<and> map bin h' = map bin h
      \<and> sum_list (map count h') = sum_list (map count h) + length prices
      \<and> (\<forall>i<50. count (h' ! i) = count (h ! i)
            + length (filter (\<lambda>p. min (nat \<lfloor>(p - mn) / bs\<rfloor>) 49 = i) prices))"
  using assms(2,3)
proof (induction prices arbitrary: h)
  case Nil
  then show ?case by simp
next
  case (Cons p prices)
  let ?i = "min (nat \<lfloor>(p - mn) / bs\<rfloor>) 49"
  let ?h1 = "h[?i := (h ! ?i)\<lparr>count := count (h ! ?i) + 1\<rparr>]"
  have i: "?i < length h" using Cons.prems by simp
  have idx: "array_index (binIndex p mn bs) (length h) = Some ?i"
    using array_index_binIndex [OF assms(1), of mn p] Cons.prems by simp
  have step: "fillHistogram (p # prices) mn bs h = fillHistogram prices mn bs ?h1"
    using idx by simp
  obtain h' where h': "fillHistogram prices mn bs ?h1 = Inr h'" "length h' = 50"
      "map bin h' = map bin ?h1"
      "sum_list (map count h') = sum_list (map count ?h1) + length prices"
      "\<forall>i<50. count (h' ! i) = count (?h1 ! i)
            + length (filter (\<lambda>p. min (nat \<lfloor>(p - mn) / bs\<rfloor>) 49 = i) prices)"
    using Cons.IH [of ?h1] Cons.prems by auto
  have b: "map bin ?h1 = map bin h"
    using i by (simp add: map_update list_update_same_conv)
  have s: "sum_list (map count ?h1) = sum_list (map count h) + 1"
    using sum_list_count_update [OF i] .
  have c: "count (?h1 ! j) = count (h ! j) + (if ?i = j then 1 else 0)" if "j < 50" for j
    using that Cons.prems by (simp add: nth_list_update)
  have "\<forall>j<50. count (h' ! j) = count (h ! j)
            + length (filter (\<lambda>p. min (nat \<lfloor>(p - mn) / bs\<rfloor>) 49 = j) (p # prices))"
    using h'(5) c by auto
  then show ?case using step h'(1,2,3,4) b s by simp
qed

lemma fillHistogram_degenerate:
  assumes "mn \<in> set prices"
  shows "is_TypeError (fillHistogram prices mn 0 h)"
  using assms
proof (induction prices arbitrary: h)
  case Nil
  then show ?case by simp
next
  case (Cons p prices)
  show ?case
  proof (cases "p = mn")
    case True
    then show ?thesis by (simp add: binIndex_def jsdiv_def array_index_def)
  next
    case False
    then have "mn \<in> set prices" using Cons.prems by simp
    then show ?thesis using Cons.IH by (simp split: option.splits)
  qed
qed

section \<open>A run that returns a result\<close>

lemma stepLoop_add:
  "stepLoop (m + n) rnd d om a b s = stepLoop n rnd d om a b (stepLoop m rnd d om a b s)"
  by (induction m arbitrary: s) simp_all

lemma simStep_flat:
  assumes "cos (2 * pi * rnd (k + 1)) = 0"
  shows "simStep rnd (1 / 2) 1 0 0 (pp, pr, 1, k)
           = (pp @ [max pr MIN_PRICE], max pr MIN_PRICE, 1, k + 2)"
  using assms
  by (simp add: simStep_def randomNormal_def Let_def MIN_VARIANCE_def MAX_VARIANCE_def max_def)

lemma simStep_up:
  assumes "rnd k = exp (- 2)" "rnd (k + 1) = 1 / 6" "MIN_PRICE \<le> pr"
  shows "simStep rnd (1 / 2) 1 0 0 (pp, pr, 1, k)
           = (pp @ [pr * exp (sqrt dt)], pr * exp (sqrt dt), 1, k + 2)"
proof -
  have c: "cos (2 * pi * rnd (k + 1)) = 1 / 2"
    unfolding assms(2) by (simp add: cos_60)
  have s: "sqrt (- 2 * ln (rnd k)) = 2"
    unfolding assms(1) by simp
  have z: "sqrt (- 2 * ln (rnd k)) * cos (2 * pi * rnd (k + 1)) = 1"
    unfolding c s by simp
  have "0 < pr" using assms(3) by (simp add: MIN_PRICE_def)
  have "1 \<le> exp (sqrt dt)" by (simp add: dt_def)
  then have "pr * 1 \<le> pr * exp (sqrt dt)" using \<open>0 < pr\<close> by (intro mult_left_mono) simp_all
  then have ge: "\<not> pr * exp (sqrt dt) < MIN_PRICE" using assms(3) by simp
  have rn: "randomNormal rnd k = (1, k + 2)"
    using z by (simp add: randomNormal_def)
  show ?thesis
    using ge by (simp add: simStep_def rn Let_def MIN_VARIANCE_def MAX_VARIANCE_def)
qed

lemma stepLoop_flat:
  assumes "\<forall>j<n. cos (2 * pi * rnd (k + 2 * j + 1)) = 0" "MIN_PRICE \<le> pr"
  shows "stepLoop n rnd (1 / 2) 1 0 0 (pp, pr, 1, k) = (pp @ replicate n pr, pr, 1, k + 2 * n)"
  using assms
proof (induction n arbitrary: pp k)
  case 0
  then show ?case by simp
next
  case (Suc n)
  have "cos (2 * pi * rnd (k + 1)) = 0" using Suc.prems(1) by (auto dest: spec [of _ 0])
  then have s: "simStep rnd (1 / 2) 1 0 0 (pp, pr, 1, k) = (pp @ [pr], pr, 1, k + 2)"
    using simStep_flat [of rnd k pp pr] Suc.prems(2) by (simp add: max_def)
  have "\<forall>j<n. cos (2 * pi * rnd (k + 2 + 2 * j + 1)) = 0"
  proof (intro allI impI)
    fix j assume "j < n"
    then have "cos (2 * pi * rnd (k + 2 * Suc j + 1)) = 0" using Suc.prems(1) by blast
    then show "cos (2 * pi * rnd (k + 2 + 2 * j + 1)) = 0" by (simp add: add.assoc)
  qed
  then have "stepLoop n rnd (1 / 2) 1 0 0 (pp @ [pr], pr, 1, k + 2)
               = ((pp @ [pr]) @ replicate n pr, pr, 1, k + 2 + 2 * n)"
    using Suc.IH [of "k + 2" "pp @ [pr]"] Suc.prems(2) by simp
  then show ?case using s by (simp add: replicate_app_Cons_same)
qed

lemma exampleRandom_flat: "odd i \<Longrightarrow> i \<noteq> 19 \<Longrightarrow> cos (2 * pi * exampleRandom i) = 0"
  by (auto simp: exampleRandom_def)

lemma uniformDraws_example: "uniformDraws exampleRandom"
  by (simp add: uniformDraws_def exampleRandom_def)

lemma example_path_first:
  "last (fst (simulatePath exampleRandom 10 ip 1 (1 / 2) 1 0 0 0))
     = max ip MIN_PRICE * exp (sqrt dt)"
proof -
  let ?P = "max ip MIN_PRICE"
  have P: "MIN_PRICE \<le> ?P" by simp
  have s1: "stepLoop 1 exampleRandom (1 / 2) 1 0 0 ([ip], ip, 1, 0) = ([ip, ?P], ?P, 1, 2)"
  proof -
    have "simStep exampleRandom (1 / 2) 1 0 0 ([ip], ip, 1, 0) = ([ip] @ [?P], ?P, 1, 0 + 2)"
      by (rule simStep_flat) (use exampleRandom_flat [of 1] in simp)
    then show ?thesis by simp
  qed
  have "\<forall>j<8. cos (2 * pi * exampleRandom (2 + 2 * j + 1)) = 0"
    by (intro allI impI exampleRandom_flat) auto
  then have s2: "stepLoop 8 exampleRandom (1 / 2) 1 0 0 ([ip, ?P], ?P, 1, 2)
                   = ([ip, ?P] @ replicate 8 ?P, ?P, 1, 18)"
    using stepLoop_flat [of 8 exampleRandom 2 ?P "[ip, ?P]"] P by simp
  have s3: "stepLoop 1 exampleRandom (1 / 2) 1 0 0 ([ip, ?P] @ replicate 8 ?P, ?P, 1, 18)
              = (([ip, ?P] @ replicate 8 ?P) @ [?P * exp (sqrt dt)], ?P * exp (sqrt dt), 1, 20)"
  proof -
    have "simStep exampleRandom (1 / 2) 1 0 0 ([ip, ?P] @ replicate 8 ?P, ?P, 1, 18)
            = (([ip, ?P] @ replicate 8 ?P) @ [?P * exp (sqrt dt)], ?P * exp (sqrt dt), 1, 18 + 2)"
      by (rule simStep_up) (simp_all add: exampleRandom_def)
    then show ?thesis by simp
  qed
  have "stepLoop (1 + (8 + 1)) exampleRandom (1 / 2) 1 0 0 ([ip], ip, 1, 0)
          = (([ip, ?P] @ replicate 8 ?P) @ [?P * exp (sqrt dt)], ?P * exp (sqrt dt), 1, 20)"
    unfolding stepLoop_add s1 s2 s3 ..
  then have "stepLoop 10 exampleRandom (1 / 2) 1 0 0 ([ip], ip, 1, 0)
          = (([ip, ?P] @ replicate 8 ?P) @ [?P * exp (sqrt dt)], ?P * exp (sqrt dt), 1, 20)"
    by simp
  then show ?thesis
    unfolding simulatePath_def by simp
qed

lemma example_path_second:
  "last (fst (simulatePath exampleRandom 10 ip 1 (1 / 2) 1 0 0 20)) = max ip MIN_PRICE"
proof -
  let ?P = "max ip MIN_PRICE"
  have P: "MIN_PRICE \<le> ?P" by simp
  have s1: "stepLoop 1 exampleRandom (1 / 2) 1 0 0 ([ip], ip, 1, 20) = ([ip, ?P], ?P, 1, 22)"
  proof -
    have "simStep exampleRandom (1 / 2) 1 0 0 ([ip], ip, 1, 20) = ([ip] @ [?P], ?P, 1, 20 + 2)"
      by (rule simStep_flat) (use exampleRandom_flat [of 21] in simp)
    then show ?thesis by simp
  qed
  have "\<forall>j<9. cos (2 * pi * exampleRandom (22 + 2 * j + 1)) = 0"
    by (intro allI impI exampleRandom_flat) auto
  then have s2: "stepLoop 9 exampleRandom (1 / 2) 1 0 0 ([ip, ?P], ?P, 1, 22)
                   = ([ip, ?P] @ replicate 9 ?P, ?P, 1, 40)"
    using stepLoop_flat [of 9 exampleRandom 22 ?P "[ip, ?P]"] P by simp
  have "stepLoop (1 + 9) exampleRandom (1 / 2) 1 0 0 ([ip], ip, 1, 20)
          = ([ip, ?P] @ replicate 9 ?P, ?P, 1, 40)"
    unfolding stepLoop_add s1 s2 ..
  then have "stepLoop 10 exampleRandom (1 / 2) 1 0 0 ([ip], ip, 1, 20)
          = ([ip, ?P] @ replicate 9 ?P, ?P, 1, 40)"
    by simp
  then show ?thesis
    unfolding simulatePath_def by simp
qed

lemma calculateStatistics_ok:
  assumes "x \<in> set (map last ps)" "y \<in> set (map last ps)" "x < y"
  shows "\<exists>r. calculateStatistics ps ip = Inr r"
proof -
  let ?f = "map last ps"
  have ne: "?f \<noteq> []" using assms(1) by auto
  let ?mn = "sort ?f ! 0"
  let ?mx = "sort ?f ! (length (sort ?f) - 1)"
  have mn: "?mn = Min (set ?f)" using sort_min [OF ne] .
  have mx: "?mx = Max (set ?f)" using sort_max [OF ne] .
  have "?mn \<le> x" unfolding mn using assms(1) by (intro Min_le) auto
  moreover have "y \<le> ?mx" unfolding mx using assms(2) by (intro Max_ge) auto
  ultimately have bs: "0 < (?mx - ?mn) / real (50::nat)" using assms(3) by simp
  have lo: "\<forall>p \<in> set ?f. ?mn \<le> p" unfolding mn by (auto intro: Min_le)
  obtain h' where "fillHistogram ?f ?mn ((?mx - ?mn) / real (50::nat))
       (map (\<lambda>i. \<lparr>bin = ?mn + real i * ((?mx - ?mn) / real (50::nat)), count = 0\<rparr>) [0..<50]) = Inr h'"
    using fillHistogram_ok [OF bs lo, of "map (\<lambda>i. \<lparr>bin = ?mn + real i * ((?mx - ?mn) / real (50::nat)), count = 0\<rparr>) [0..<50]"]
    by auto
  then show ?thesis
    unfolding calculateStatistics_def Let_def by simp
qed

lemma validateParams_example: "validateParams exampleParams = Inr ()"
  by (simp add: validateParams_def exampleParams_def)

lemma example_run:
  assumes "0 < ip"
  shows "\<exists>r. runMonteCarloSimulation exampleRandom ip exampleParams 1 (1 / 2) = Inr r"
proof -
  let ?ps = "generatedPaths exampleRandom ip exampleParams 1 (1 / 2)"
  have p0: "?ps ! 0 = fst (simulatePath exampleRandom 10 ip 1 (1 / 2) 1 0 0 0)"
    by (simp add: generatedPaths_def exampleParams_def del: upt_Suc)
  have p1: "?ps ! 1 = fst (simulatePath exampleRandom 10 ip 1 (1 / 2) 1 0 0 20)"
    by (simp add: generatedPaths_def exampleParams_def del: upt_Suc)
  have len: "length ?ps = 100" by (simp add: generatedPaths_length exampleParams_def)
  have y: "last (?ps ! 0) \<in> set (map last ?ps)"
    using len by (intro nth_mem [THEN imageI, of 0 ?ps last, simplified set_map [symmetric]]) simp
  have x: "last (?ps ! 1) \<in> set (map last ?ps)"
    using len by (intro nth_mem [THEN imageI, of 1 ?ps last, simplified set_map [symmetric]]) simp
  have "0 < max ip MIN_PRICE" using assms by simp
  moreover have "1 < exp (sqrt dt)" by (simp add: dt_def)
  ultimately have "max ip MIN_PRICE * 1 < max ip MIN_PRICE * exp (sqrt dt)"
    by (intro mult_strict_left_mono) simp_all
  then have "last (?ps ! 1) < last (?ps ! 0)"
    unfolding p0 p1 example_path_first example_path_second by simp
  then obtain r where "calculateStatistics ?ps ip = Inr r"
    using calculateStatistics_ok [OF x y] by blast
  then show ?thesis using assms
    by (simp add: run_eq validateParams_example)
qed

section \<open>Paths, unpopulated fields and the draws a run reads\<close>

text \<open>
  Claim C3: a result returned by \<open>runMonteCarloSimulation\<close> has
  \<open>currentVolatility = 0\<close>, \<open>trend = 0\<close> and \<open>drift = 0\<close>, whatever the volatility and
  drift arguments were: the three fields are never populated from the inputs. (The witness
  runs the simulation with volatility 1 and drift 1/2.)
\<close>

theorem result_fields_not_populated:
  assumes "runMonteCarloSimulation rnd ip params vol d = Inr r"
  shows "currentVolatility r = 0 \<and> trend r = 0 \<and> drift r = 0"
  using calculateStatistics_fields(2,3,4) [OF run_Inr(4) [OF assms]] by simp

theorem result_fields_not_populated_witness:
  "\<not> isl (runMonteCarloSimulation exampleRandom 100 exampleParams 1 (1 / 2))
   \<and> currentVolatility (projr (runMonteCarloSimulation exampleRandom 100 exampleParams 1 (1 / 2))) = 0
   \<and> trend (projr (runMonteCarloSimulation exampleRandom 100 exampleParams 1 (1 / 2))) = 0
   \<and> drift (projr (runMonteCarloSimulation exampleRandom 100 exampleParams 1 (1 / 2))) = 0"
proof -
  obtain r where r: "runMonteCarloSimulation exampleRandom 100 exampleParams 1 (1 / 2) = Inr r"
    using example_run [of 100] by auto
  show ?thesis
    using result_fields_not_populated [OF r] by (simp add: r)
qed

text \<open>
  Claim C1, as amended: for draws inside (0, 1), a result returned by
  \<open>runMonteCarloSimulation\<close> holds exactly \<open>numPaths\<close> paths, each of length
  \<open>numSteps + 1\<close>; the first element of every path is \<open>initialPrice\<close>, every later
  element is at least 0.01, and every element is positive. The seed itself is not
  floored: validation only requires it to be positive.
\<close>

theorem paths_shape:
  assumes draws: "uniformDraws rnd"
    and run: "runMonteCarloSimulation rnd ip params vol d = Inr r"
  shows "length (paths r) = numPaths params
       \<and> (\<forall>p \<in> set (paths r).
             length p = numSteps params + 1 \<and> p ! 0 = ip
             \<and> (\<forall>i. 1 \<le> i \<and> i < length p \<longrightarrow> 1 / 100 \<le> p ! i)
             \<and> (\<forall>x \<in> set p. 0 < x))"
proof -
  have ps: "paths r = generatedPaths rnd ip params vol d"
    using calculateStatistics_fields(1) [OF run_Inr(4) [OF run]] .
  have ip: "0 < ip" using run_Inr(2) [OF run] .
  have "length p = numSteps params + 1 \<and> p ! 0 = ip
             \<and> (\<forall>i. 1 \<le> i \<and> i < length p \<longrightarrow> 1 / 100 \<le> p ! i)
             \<and> (\<forall>x \<in> set p. 0 < x)" if mem: "p \<in> set (paths r)" for p
  proof -
    obtain new where new: "p = ip # new" "length new = numSteps params"
        "\<forall>x \<in> set new. MIN_PRICE \<le> x"
      using generatedPaths_shape [OF mem [unfolded ps]] by blast
    have "1 / 100 \<le> p ! i" if i1: "1 \<le> i \<and> i < length p" for i
    proof -
      obtain j where j: "i = Suc j" using i1 by (cases i) auto
      then have "j < length new" using i1 new(1) by simp
      then have "new ! j \<in> set new" by simp
      then have "MIN_PRICE \<le> new ! j" using new(3) by blast
      then show ?thesis using j new(1) by (simp add: MIN_PRICE_def)
    qed
    moreover have "\<forall>x \<in> set p. 0 < x"
      using new(1,3) ip by (auto simp: MIN_PRICE_def dest!: bspec)
    ultimately show ?thesis using new(1,2) by simp
  qed
  then show ?thesis using ps generatedPaths_length by simp
qed

theorem paths_shape_witness:
  "uniformDraws exampleRandom
   \<and> \<not> isl (runMonteCarloSimulation exampleRandom 100 exampleParams 1 (1 / 2))
   \<and> length (paths (projr (runMonteCarloSimulation exampleRandom 100 exampleParams 1 (1 / 2)))) = 100
   \<and> length (hd (paths (projr (runMonteCarloSimulation exampleRandom 100 exampleParams 1 (1 / 2))))) = 11
   \<and> hd (paths (projr (runMonteCarloSimulation exampleRandom 100 exampleParams 1 (1 / 2)))) ! 0 = 100
   \<and> 1 / 100 \<le> hd (paths (projr (runMonteCarloSimulation exampleRandom 100 exampleParams 1 (1 / 2)))) ! 10"
proof -
  obtain r where r: "runMonteCarloSimulation exampleRandom 100 exampleParams 1 (1 / 2) = Inr r"
    using example_run [of 100] by auto
  have s: "length (paths r) = 100 \<and> (\<forall>p \<in> set (paths r).
             length p = 10 + 1 \<and> p ! 0 = 100
             \<and> (\<forall>i. 1 \<le> i \<and> i < length p \<longrightarrow> 1 / 100 \<le> p ! i)
             \<and> (\<forall>x \<in> set p. 0 < x))"
    using paths_shape [OF uniformDraws_example r] by (simp add: exampleParams_def)
  then have "paths r \<noteq> []" by auto
  then have "hd (paths r) \<in> set (paths r)" by simp
  then have "length (hd (paths r)) = 11 \<and> hd (paths r) ! 0 = 100
       \<and> (\<forall>i. 1 \<le> i \<and> i < length (hd (paths r)) \<longrightarrow> 1 / 100 \<le> hd (paths r) ! i)"
    using s by auto
  then show ?thesis using s by (simp add: r uniformDraws_example)
qed

text \<open>
  The claim C1 as stated (every element of every path is at least 0.01) fails for a seed
  price between 0 and 0.01: with \<open>initialPrice = 0.005\<close> validation passes, a result is
  returned, and the first element of the first path is 0.005.
\<close>

theorem seed_below_price_floor:
  "validateParams exampleParams = Inr () \<and> uniformDraws exampleRandom
   \<and> \<not> isl (runMonteCarloSimulation exampleRandom (1 / 200) exampleParams 1 (1 / 2))
   \<and> hd (hd (paths (projr (runMonteCarloSimulation exampleRandom (1 / 200) exampleParams 1 (1 / 2))))) = 1 / 200
   \<and> \<not> (\<forall>p \<in> set (paths (projr (runMonteCarloSimulation exampleRandom (1 / 200) exampleParams 1 (1 / 2)))).
          \<forall>x \<in> set p. 1 / 100 \<le> x)"
proof -
  obtain r where r: "runMonteCarloSimulation exampleRandom (1 / 200) exampleParams 1 (1 / 2) = Inr r"
    using example_run [of "1 / 200"] by auto
  have ps: "paths r = generatedPaths exampleRandom (1 / 200) exampleParams 1 (1 / 2)"
    using calculateStatistics_fields(1) [OF run_Inr(4) [OF r]] .
  have "length (paths r) = 100" using ps by (simp add: generatedPaths_length exampleParams_def)
  then have ne: "paths r \<noteq> []" by auto
  then have m: "hd (paths r) \<in> set (paths r)" by simp
  then obtain new where "hd (paths r) = (1 / 200) # new"
    using generatedPaths_shape [of "hd (paths r)" exampleRandom "1 / 200" exampleParams 1 "1 / 2"] ps
    by auto
  then have h: "hd (hd (paths r)) = 1 / 200" "1 / 200 \<in> set (hd (paths r))" by simp_all
  have "\<not> (\<forall>p \<in> set (paths r). \<forall>x \<in> set p. 1 / 100 \<le> (x::real))"
  proof
    assume "\<forall>p \<in> set (paths r). \<forall>x \<in> set p. 1 / 100 \<le> (x::real)"
    then have "1 / 100 \<le> (1 / 200 :: real)" using m h(2) by blast
    then show False by simp
  qed
  then show ?thesis using h(1) by (simp add: r validateParams_example uniformDraws_example)
qed

lemma simStep_cong:
  assumes "rnd k = rnd' k" "rnd (k + 1) = rnd' (k + 1)"
  shows "simStep rnd d om a b (pp, pr, vol, k) = simStep rnd' d om a b (pp, pr, vol, k)"
  using assms by (simp add: simStep_def randomNormal_def)

lemma stepLoop_cong:
  assumes "\<forall>i. k \<le> i \<and> i < k + 2 * n \<longrightarrow> rnd i = rnd' i"
  shows "stepLoop n rnd d om a b (pp, pr, vol, k) = stepLoop n rnd' d om a b (pp, pr, vol, k)"
  using assms
proof (induction n arbitrary: pp pr vol k)
  case 0
  then show ?case by simp
next
  case (Suc n)
  have e: "simStep rnd d om a b (pp, pr, vol, k) = simStep rnd' d om a b (pp, pr, vol, k)"
    using Suc.prems by (intro simStep_cong) simp_all
  obtain p v where s: "simStep rnd' d om a b (pp, pr, vol, k) = (pp @ [p], p, v, k + 2)"
    using simStep_shape by blast
  have "\<forall>i. k + 2 \<le> i \<and> i < k + 2 + 2 * n \<longrightarrow> rnd i = rnd' i"
    using Suc.prems by simp
  then have "stepLoop n rnd d om a b (pp @ [p], p, v, k + 2)
               = stepLoop n rnd' d om a b (pp @ [p], p, v, k + 2)"
    by (rule Suc.IH)
  then show ?case using e s by simp
qed

lemma generatedPaths_cong:
  assumes "\<forall>i < 2 * numPaths params * numSteps params. rnd i = rnd' i"
  shows "generatedPaths rnd ip params vol d = generatedPaths rnd' ip params vol d"
proof -
  have "simulatePath rnd (numSteps params) ip vol d om a b (2 * numSteps params * j)
          = simulatePath rnd' (numSteps params) ip vol d om a b (2 * numSteps params * j)"
    if "j < numPaths params" for j om a b
  proof -
    have "2 * numSteps params * j + 2 * numSteps params = 2 * numSteps params * Suc j" by simp
    also have "\<dots> \<le> 2 * numSteps params * numPaths params"
      using that by (intro mult_le_mono2) simp
    finally have "\<forall>i. 2 * numSteps params * j \<le> i \<and> i < 2 * numSteps params * j + 2 * numSteps params
             \<longrightarrow> rnd i = rnd' i"
      using assms by (simp add: mult.commute mult.left_commute)
    then have "stepLoop (numSteps params) rnd d om a b ([ip], ip, vol, 2 * numSteps params * j)
             = stepLoop (numSteps params) rnd' d om a b ([ip], ip, vol, 2 * numSteps params * j)"
      by (rule stepLoop_cong)
    then show ?thesis
      unfolding simulatePath_def by simp
  qed
  then show ?thesis
    unfolding generatedPaths_def by (intro map_cong) simp_all
qed

text \<open>
  How much of the random sequence a run reads: the value of \<open>runMonteCarloSimulation\<close>
  depends on the first \<open>2 * numPaths * numSteps\<close> results of \<open>Math.random\<close> only. Two
  sequences that agree there give the same result (or the same error), whatever they hold
  afterwards. (That two runs on one and the same sequence agree is not a theorem about
  the code: here the run is a function of the sequence, while the source reads the global
  \<open>Math.random\<close> and has no place to pass a sequence in.)
\<close>

theorem run_reads_prefix_of_draws:
  assumes "\<forall>i < 2 * numPaths params * numSteps params. rnd i = rnd' i"
  shows "runMonteCarloSimulation rnd ip params vol d = runMonteCarloSimulation rnd' ip params vol d"
  unfolding run_eq generatedPaths_cong [OF assms] ..

theorem run_reads_prefix_of_draws_witness:
  "\<not> isl (runMonteCarloSimulation exampleRandom 100 exampleParams 1 (1 / 2))
   \<and> runMonteCarloSimulation exampleRandom 100 exampleParams 1 (1 / 2)
       = runMonteCarloSimulation (\<lambda>i. if i < 2000 then exampleRandom i else 0) 100 exampleParams 1 (1 / 2)"
proof -
  have "\<forall>i < 2 * numPaths exampleParams * numSteps exampleParams.
          exampleRandom i = (if i < 2000 then exampleRandom i else 0)"
    by (simp add: exampleParams_def)
  then show ?thesis
    using run_reads_prefix_of_draws [of exampleParams exampleRandom "\<lambda>i. if i < 2000 then exampleRandom i else 0" 100 1 "1 / 2"]
      example_run [of 100]
    by auto
qed

section \<open>Value at risk and expected shortfall\<close>

lemma floor_fraction_nat:
  "nat \<lfloor>real a / real b\<rfloor> = a div b"
  using floor_divide_of_nat_eq [of a b, where ?'a = real] by simp

lemma var95_index: "nat \<lfloor>0.05 * real n\<rfloor> = n div 20"
proof -
  have "0.05 * real n = real n / real (20::nat)" by simp
  then show ?thesis using floor_fraction_nat [of n 20] by simp
qed

lemma var99_index: "nat \<lfloor>0.01 * real n\<rfloor> = n div 100"
proof -
  have "0.01 * real n = real n / real (100::nat)" by simp
  then show ?thesis using floor_fraction_nat [of n 100] by simp
qed

lemma run_terminalPrices:
  assumes "runMonteCarloSimulation rnd ip params vol d = Inr r"
  shows "terminalPrices r = map last (generatedPaths rnd ip params vol d)"
    and "length (terminalPrices r) = numPaths params"
    and "100 \<le> numPaths params"
proof -
  show "terminalPrices r = map last (generatedPaths rnd ip params vol d)"
    using calculateStatistics_fields(1) [OF run_Inr(4) [OF assms]]
    by (simp add: terminalPrices_def)
  then show "length (terminalPrices r) = numPaths params"
    by (simp add: generatedPaths_length)
  show "100 \<le> numPaths params"
    using run_Inr(1) [OF assms] by (simp add: validateParams_Inr)
qed

text \<open>
  Claim C5: for draws inside (0, 1) and a result returned by \<open>runMonteCarloSimulation\<close>,
  with \<open>sortedPrices\<close> the terminal prices of the \<open>numPaths\<close> paths in ascending order,
  \<open>var95 = initialPrice - sortedPrices[floor(0.05 * numPaths)]\<close>,
  \<open>var99 = initialPrice - sortedPrices[floor(0.01 * numPaths)]\<close>, and each expected
  shortfall is \<open>initialPrice\<close> minus the mean of \<open>sortedPrices[0 ..= varIndex]\<close>, the
  tail that includes the VaR index: all four are anchored to \<open>initialPrice\<close>. The two
  indices are \<open>numPaths div 20\<close> and \<open>numPaths div 100\<close>, both inside the array, so the
  tail has exactly \<open>varIndex + 1\<close> prices.
\<close>

theorem var_and_expected_shortfall:
  assumes draws: "uniformDraws rnd"
    and run: "runMonteCarloSimulation rnd ip params vol d = Inr r"
  shows "let sortedPrices = sort (terminalPrices r);
             n = numPaths params;
             var95Index = nat \<lfloor>0.05 * real n\<rfloor>;
             var99Index = nat \<lfloor>0.01 * real n\<rfloor>
         in length sortedPrices = n \<and> sorted sortedPrices
          \<and> var95Index = n div 20 \<and> var99Index = n div 100
          \<and> var95Index < n \<and> var99Index < n
          \<and> var95 r = ip - sortedPrices ! var95Index
          \<and> var99 r = ip - sortedPrices ! var99Index
          \<and> expectedShortfall95 r
              = ip - sum_list (take (var95Index + 1) sortedPrices) / real (var95Index + 1)
          \<and> expectedShortfall99 r
              = ip - sum_list (take (var99Index + 1) sortedPrices) / real (var99Index + 1)"
proof -
  let ?ps = "generatedPaths rnd ip params vol d"
  note f = calculateStatistics_fields [OF run_Inr(4) [OF run]]
  have t: "map last ?ps = terminalPrices r" using run_terminalPrices(1) [OF run] by simp
  have n: "length ?ps = numPaths params" by (rule generatedPaths_length)
  have pos: "0 < numPaths params" using run_terminalPrices(3) [OF run] by simp
  define i95 where "i95 = nat \<lfloor>0.05 * real (numPaths params)\<rfloor>"
  define i99 where "i99 = nat \<lfloor>0.01 * real (numPaths params)\<rfloor>"
  have i95: "i95 = numPaths params div 20" unfolding i95_def by (rule var95_index)
  have i99: "i99 = numPaths params div 100" unfolding i99_def by (rule var99_index)
  have lt: "i95 < numPaths params" "i99 < numPaths params"
    using pos unfolding i95 i99 by simp_all
  have len: "length (sort (terminalPrices r)) = numPaths params"
    using run_terminalPrices(2) [OF run] by simp
  have v95: "var95 r = ip - sort (terminalPrices r) ! i95"
    using f(5) unfolding n t i95_def .
  have v99: "var99 r = ip - sort (terminalPrices r) ! i99"
    using f(6) unfolding n t i99_def .
  have e95: "expectedShortfall95 r
               = ip - sum_list (take (i95 + 1) (sort (terminalPrices r))) / real (i95 + 1)"
    using f(7) unfolding n t i95_def .
  have e99: "expectedShortfall99 r
               = ip - sum_list (take (i99 + 1) (sort (terminalPrices r))) / real (i99 + 1)"
    using f(8) unfolding n t i99_def .
  have "length (sort (terminalPrices r)) = numPaths params \<and> sorted (sort (terminalPrices r))
          \<and> i95 = numPaths params div 20 \<and> i99 = numPaths params div 100
          \<and> i95 < numPaths params \<and> i99 < numPaths params
          \<and> var95 r = ip - sort (terminalPrices r) ! i95
          \<and> var99 r = ip - sort (terminalPrices r) ! i99
          \<and> expectedShortfall95 r
              = ip - sum_list (take (i95 + 1) (sort (terminalPrices r))) / real (i95 + 1)
          \<and> expectedShortfall99 r
              = ip - sum_list (take (i99 + 1) (sort (terminalPrices r))) / real (i99 + 1)"
    using len i95 i99 lt v95 v99 e95 e99 by simp
  then show ?thesis
    unfolding Let_def i95_def i99_def .
qed

theorem var_and_expected_shortfall_witness:
  "uniformDraws exampleRandom
   \<and> \<not> isl (runMonteCarloSimulation exampleRandom 100 exampleParams 1 (1 / 2))
   \<and> var95 (projr (runMonteCarloSimulation exampleRandom 100 exampleParams 1 (1 / 2)))
       = 100 - sort (terminalPrices (projr (runMonteCarloSimulation exampleRandom 100 exampleParams 1 (1 / 2)))) ! 5
   \<and> var99 (projr (runMonteCarloSimulation exampleRandom 100 exampleParams 1 (1 / 2)))
       = 100 - sort (terminalPrices (projr (runMonteCarloSimulation exampleRandom 100 exampleParams 1 (1 / 2)))) ! 1
   \<and> expectedShortfall99 (projr (runMonteCarloSimulation exampleRandom 100 exampleParams 1 (1 / 2)))
       = 100 - sum_list (take 2 (sort (terminalPrices
                 (projr (runMonteCarloSimulation exampleRandom 100 exampleParams 1 (1 / 2)))))) / 2"
proof -
  obtain r where r: "runMonteCarloSimulation exampleRandom 100 exampleParams 1 (1 / 2) = Inr r"
    using example_run [of 100] by auto
  have n: "numPaths exampleParams = 100" by (simp add: exampleParams_def)
  have e: "take 2 xs = take (Suc (Suc 0)) xs" for xs :: "real list"
    by (simp add: numeral_2_eq_2)
  show ?thesis
    using var_and_expected_shortfall [OF uniformDraws_example r]
    unfolding Let_def n r var95_index var99_index by (simp add: e uniformDraws_example)
qed

section \<open>Percentiles\<close>

lemma percentileIndex_mono:
  assumes "p \<le> q" "0 < n"
  shows "percentileIndex p n \<le> percentileIndex q n"
proof -
  have "0 \<le> real n - 1" using assms(2) by simp
  moreover have "real p / 100 \<le> real q / 100" using assms(1) by simp
  ultimately have "real p / 100 * (real n - 1) \<le> real q / 100 * (real n - 1)"
    by (rule mult_right_mono [rotated])
  then have "\<lfloor>real p / 100 * (real n - 1)\<rfloor> \<le> \<lfloor>real q / 100 * (real n - 1)\<rfloor>"
    by (rule floor_mono)
  then show ?thesis unfolding percentileIndex_def by (rule nat_mono)
qed

lemma percentileIndex_less:
  assumes "p \<le> 100" "0 < n"
  shows "percentileIndex p n < n"
proof -
  have "0 \<le> real n - 1" using assms(2) by simp
  moreover have "real p / 100 \<le> 1" using assms(1) by simp
  ultimately have "real p / 100 * (real n - 1) \<le> 1 * (real n - 1)"
    by (rule mult_right_mono [rotated])
  then have "real p / 100 * (real n - 1) \<le> real (n - 1)" using assms(2) by simp
  then have "\<lfloor>real p / 100 * (real n - 1)\<rfloor> \<le> \<lfloor>real (n - 1)\<rfloor>"
    by (rule floor_mono)
  then have "\<lfloor>real p / 100 * (real n - 1)\<rfloor> \<le> int (n - 1)" by simp
  then have "nat \<lfloor>real p / 100 * (real n - 1)\<rfloor> \<le> n - 1" by linarith
  then show ?thesis unfolding percentileIndex_def using assms(2) by linarith
qed

lemma percentileIndex_div:
  assumes "0 < n"
  shows "percentileIndex p n = (p * (n - 1)) div 100"
proof -
  have r1: "real n - 1 = real (n - 1)" using assms by (cases n) simp_all
  have "real p / 100 * (real n - 1) = real (p * (n - 1)) / real (100::nat)"
    unfolding r1 by simp
  then show ?thesis
    by (simp only: percentileIndex_def floor_fraction_nat)
qed

lemma percentile_keys:
  "percentileKey 5 = ''p5''" "percentileKey 10 = ''p10''" "percentileKey 25 = ''p25''"
  "percentileKey 50 = ''p50''" "percentileKey 75 = ''p75''" "percentileKey 90 = ''p90''"
  "percentileKey 95 = ''p95''"
  by (simp_all add: percentileKey_def string_of_nat.simps digit_char_def)

lemma percentiles_lookup:
  fixes f :: "nat \<Rightarrow> real"
  defines "m \<equiv> fold (\<lambda>p m. m(percentileKey p \<mapsto> f p)) [5, 10, 25, 50, 75, 90, 95] Map.empty"
  shows "m ''p5'' = Some (f 5)" "m ''p10'' = Some (f 10)" "m ''p25'' = Some (f 25)"
    "m ''p50'' = Some (f 50)" "m ''p75'' = Some (f 75)" "m ''p90'' = Some (f 90)"
    "m ''p95'' = Some (f 95)"
    "dom m = {''p5'', ''p10'', ''p25'', ''p50'', ''p75'', ''p90'', ''p95''}"
  unfolding m_def by (auto simp: percentile_keys)

text \<open>
  Claim C9: for draws inside (0, 1), in a result of \<open>runMonteCarloSimulation\<close> the
  percentile at each level \<open>p\<close> of 5, 10, 25, 50, 75, 90, 95 is stored under the key
  \<open>p<level>\<close> and is the sorted terminal price at the index
  \<open>floor(p / 100 * (numPaths - 1))\<close>, an element of the array with no interpolation;
  the percentile values are non-decreasing in the level.
\<close>

theorem percentiles_nearest_rank:
  assumes draws: "uniformDraws rnd"
    and run: "runMonteCarloSimulation rnd ip params vol d = Inr r"
  shows "let s = sort (terminalPrices r);
             n = numPaths params;
             idx = (\<lambda>p :: nat. nat \<lfloor>real p / 100 * (real n - 1)\<rfloor>)
         in length s = n \<and> sorted s \<and> idx 95 < n
          \<and> percentiles r ''p5'' = Some (s ! idx 5)
          \<and> percentiles r ''p10'' = Some (s ! idx 10)
          \<and> percentiles r ''p25'' = Some (s ! idx 25)
          \<and> percentiles r ''p50'' = Some (s ! idx 50)
          \<and> percentiles r ''p75'' = Some (s ! idx 75)
          \<and> percentiles r ''p90'' = Some (s ! idx 90)
          \<and> percentiles r ''p95'' = Some (s ! idx 95)
          \<and> s ! idx 5 \<le> s ! idx 10 \<and> s ! idx 10 \<le> s ! idx 25 \<and> s ! idx 25 \<le> s ! idx 50
          \<and> s ! idx 50 \<le> s ! idx 75 \<and> s ! idx 75 \<le> s ! idx 90 \<and> s ! idx 90 \<le> s ! idx 95"
proof -
  let ?ps = "generatedPaths rnd ip params vol d"
  let ?s = "sort (terminalPrices r)"
  let ?n = "numPaths params"
  note f = calculateStatistics_fields [OF run_Inr(4) [OF run]]
  have t: "map last ?ps = terminalPrices r" using run_terminalPrices(1) [OF run] by simp
  have n: "length ?ps = ?n" by (rule generatedPaths_length)
  have pos: "0 < ?n" using run_terminalPrices(3) [OF run] by simp
  have len: "length ?s = ?n" using run_terminalPrices(2) [OF run] by simp
  have srt: "sorted ?s" by simp
  have m: "percentiles r = fold (\<lambda>p m. m(percentileKey p \<mapsto> ?s ! percentileIndex p ?n))
                          [5, 10, 25, 50, 75, 90, 95] Map.empty"
    using f(9) unfolding n t .
  note look = percentiles_lookup(1-7) [of "\<lambda>p. ?s ! percentileIndex p ?n", folded m]
  have lt: "percentileIndex 95 ?n < ?n" using percentileIndex_less [of 95 ?n] pos by simp
  have mono: "?s ! percentileIndex p ?n \<le> ?s ! percentileIndex q ?n" if "p \<le> q" "q \<le> 95" for p q
  proof (rule sorted_nth_mono [OF srt])
    show "percentileIndex p ?n \<le> percentileIndex q ?n"
      using percentileIndex_mono [OF that(1) pos] .
    have "percentileIndex q ?n \<le> percentileIndex 95 ?n"
      using percentileIndex_mono [OF that(2) pos] .
    then show "percentileIndex q ?n < length ?s" using lt len by simp
  qed
  have "length ?s = ?n \<and> sorted ?s \<and> percentileIndex 95 ?n < ?n
          \<and> percentiles r ''p5'' = Some (?s ! percentileIndex 5 ?n)
          \<and> percentiles r ''p10'' = Some (?s ! percentileIndex 10 ?n)
          \<and> percentiles r ''p25'' = Some (?s ! percentileIndex 25 ?n)
          \<and> percentiles r ''p50'' = Some (?s ! percentileIndex 50 ?n)
          \<and> percentiles r ''p75'' = Some (?s ! percentileIndex 75 ?n)
          \<and> percentiles r ''p90'' = Some (?s ! percentileIndex 90 ?n)
          \<and> percentiles r ''p95'' = Some (?s ! percentileIndex 95 ?n)
          \<and> ?s ! percentileIndex 5 ?n \<le> ?s ! percentileIndex 10 ?n
          \<and> ?s ! percentileIndex 10 ?n \<le> ?s ! percentileIndex 25 ?n
          \<and> ?s ! percentileIndex 25 ?n \<le> ?s ! percentileIndex 50 ?n
          \<and> ?s ! percentileIndex 50 ?n \<le> ?s ! percentileIndex 75 ?n
          \<and> ?s ! percentileIndex 75 ?n \<le> ?s ! percentileIndex 90 ?n
          \<and> ?s ! percentileIndex 90 ?n \<le> ?s ! percentileIndex 95 ?n"
    using len srt lt look mono [of 5 10] mono [of 10 25] mono [of 25 50] mono [of 50 75]
      mono [of 75 90] mono [of 90 95]
    by simp
  then show ?thesis
    unfolding Let_def percentileIndex_def .
qed

theorem percentiles_nearest_rank_witness:
  "uniformDraws exampleRandom
   \<and> \<not> isl (runMonteCarloSimulation exampleRandom 100 exampleParams 1 (1 / 2))
   \<and> percentiles (projr (runMonteCarloSimulation exampleRandom 100 exampleParams 1 (1 / 2))) ''p50''
       = Some (sort (terminalPrices (projr (runMonteCarloSimulation exampleRandom 100 exampleParams 1 (1 / 2))))
                 ! nat \<lfloor>real (50::nat) / 100 * (real (100::nat) - 1)\<rfloor>)
   \<and> sort (terminalPrices (projr (runMonteCarloSimulation exampleRandom 100 exampleParams 1 (1 / 2))))
         ! nat \<lfloor>real (5::nat) / 100 * (real (100::nat) - 1)\<rfloor>
       \<le> sort (terminalPrices (projr (runMonteCarloSimulation exampleRandom 100 exampleParams 1 (1 / 2))))
         ! nat \<lfloor>real (10::nat) / 100 * (real (100::nat) - 1)\<rfloor>"
proof -
  obtain r where r: "runMonteCarloSimulation exampleRandom 100 exampleParams 1 (1 / 2) = Inr r"
    using example_run [of 100] by auto
  have n: "numPaths exampleParams = 100" by (simp add: exampleParams_def)
  have "percentiles r ''p50''
       = Some (sort (terminalPrices r) ! nat \<lfloor>real (50::nat) / 100 * (real (100::nat) - 1)\<rfloor>)
   \<and> sort (terminalPrices r) ! nat \<lfloor>real (5::nat) / 100 * (real (100::nat) - 1)\<rfloor>
       \<le> sort (terminalPrices r) ! nat \<lfloor>real (10::nat) / 100 * (real (100::nat) - 1)\<rfloor>"
    using percentiles_nearest_rank [OF uniformDraws_example r]
    unfolding Let_def n by blast
  then show ?thesis unfolding r by (simp add: uniformDraws_example)
qed

section \<open>Histogram\<close>

lemma bin_interval:
  assumes w: "0 < w" and lo: "lo \<le> p" and hi: "p \<le> hi" and i: "i < 50"
  shows "min (nat \<lfloor>(p - lo) / w\<rfloor>) 49 = i
           \<longleftrightarrow> lo + real i * w \<le> p \<and> (if i = 49 then p \<le> hi else p < lo + real (i + 1) * w)"
proof -
  let ?x = "(p - lo) / w"
  have x: "0 \<le> ?x" using w lo by simp
  then have fl: "0 \<le> \<lfloor>?x\<rfloor>" by simp
  have le: "real k \<le> ?x \<longleftrightarrow> lo + real k * w \<le> p" for k
    using w by (simp add: pos_le_divide_eq algebra_simps)
  have lt: "?x < real k \<longleftrightarrow> p < lo + real k * w" for k
    using w by (simp add: pos_divide_less_eq algebra_simps)
  show ?thesis
  proof (cases "i = 49")
    case True
    have "min (nat \<lfloor>?x\<rfloor>) 49 = 49 \<longleftrightarrow> 49 \<le> \<lfloor>?x\<rfloor>" by linarith
    also have "\<dots> \<longleftrightarrow> real 49 \<le> ?x" by (simp add: le_floor_iff)
    also have "\<dots> \<longleftrightarrow> lo + real 49 * w \<le> p" by (rule le)
    finally show ?thesis using True hi by simp
  next
    case False
    then have i48: "i < 49" using i by simp
    have "min (nat \<lfloor>?x\<rfloor>) 49 = i \<longleftrightarrow> \<lfloor>?x\<rfloor> = int i" using fl i48 by linarith
    also have "\<dots> \<longleftrightarrow> real i \<le> ?x \<and> ?x < real (i + 1)"
      by (simp add: floor_eq_iff add.commute)
    also have "\<dots> \<longleftrightarrow> lo + real i * w \<le> p \<and> p < lo + real (i + 1) * w"
      unfolding le lt ..
    finally show ?thesis using False by simp
  qed
qed

text \<open>
  Claim C4: for draws inside (0, 1), in a result of \<open>runMonteCarloSimulation\<close> the
  histogram has exactly 50 bins of equal width \<open>(max - min) / 50\<close> that span the terminal
  prices from their minimum to their maximum: bin \<open>i\<close> starts at \<open>min + i * width\<close> and
  counts the terminal prices from its start up to, but not including, the start of the
  next bin; the last bin includes the maximum. The 50 counts add up to \<open>numPaths\<close>.
  (A result is returned only when the minimum is below the maximum.)
\<close>

theorem histogram_bins:
  assumes draws: "uniformDraws rnd"
    and run: "runMonteCarloSimulation rnd ip params vol d = Inr r"
  shows "let prices = terminalPrices r;
             lo = Min (set prices);
             hi = Max (set prices);
             w = (hi - lo) / 50
         in lo < hi \<and> length (histogram r) = 50
          \<and> (\<forall>i<50. bin (histogram r ! i) = lo + real i * w)
          \<and> (\<forall>i<50. count (histogram r ! i)
                = length (filter (\<lambda>p. lo + real i * w \<le> p
                                      \<and> (if i = 49 then p \<le> hi else p < lo + real (i + 1) * w))
                            prices))
          \<and> sum_list (map count (histogram r)) = numPaths params"
proof -
  let ?ps = "generatedPaths rnd ip params vol d"
  let ?f = "terminalPrices r"
  define lo where "lo = Min (set ?f)"
  define hi where "hi = Max (set ?f)"
  define w where "w = (hi - lo) / 50"
  define h0 where "h0 = map (\<lambda>i. \<lparr>bin = lo + real i * w, count = 0\<rparr>) [0..<50]"
  note f = calculateStatistics_fields [OF run_Inr(4) [OF run]]
  have t: "map last ?ps = ?f" using run_terminalPrices(1) [OF run] by simp
  have len: "length ?f = numPaths params" using run_terminalPrices(2) [OF run] .
  have ne: "?f \<noteq> []" using len run_terminalPrices(3) [OF run] by auto
  have mn: "sort ?f ! 0 = lo" unfolding lo_def by (rule sort_min [OF ne])
  have mx: "sort ?f ! (length (sort ?f) - 1) = hi" unfolding hi_def by (rule sort_max [OF ne])
  have fill: "fillHistogram ?f lo w h0 = Inr (histogram r)"
    using f(10) unfolding t mn mx h0_def w_def by simp
  have lo_le: "\<forall>p \<in> set ?f. lo \<le> p" unfolding lo_def by (auto intro: Min_le)
  have le_hi: "\<forall>p \<in> set ?f. p \<le> hi" unfolding hi_def by (auto intro: Max_ge)
  have lo_in: "lo \<in> set ?f" unfolding lo_def using ne by (intro Min_in) auto
  have "lo \<le> hi" using lo_in le_hi by blast
  moreover have "w \<noteq> 0"
  proof
    assume "w = 0"
    then have "is_TypeError (fillHistogram ?f lo w h0)"
      using fillHistogram_degenerate [OF lo_in, of h0] by simp
    then show False using fill by simp
  qed
  ultimately have w: "0 < w" and lt: "lo < hi" unfolding w_def by auto
  have l0: "length h0 = 50" by (simp add: h0_def)
  obtain h' where h': "fillHistogram ?f lo w h0 = Inr h'" "length h' = 50"
      "map bin h' = map bin h0"
      "sum_list (map count h') = sum_list (map count h0) + length ?f"
      "\<forall>i<50. count (h' ! i) = count (h0 ! i)
            + length (filter (\<lambda>p. min (nat \<lfloor>(p - lo) / w\<rfloor>) 49 = i) ?f)"
    using fillHistogram_ok [OF w lo_le l0] by blast
  have eq: "histogram r = h'" using fill h'(1) by simp
  have c0: "count (h0 ! i) = 0" "bin (h0 ! i) = lo + real i * w" if "i < 50" for i
    using that by (simp_all add: h0_def del: upt_Suc)
  have s0: "sum_list (map count h0) = 0" by (simp add: h0_def comp_def del: upt_Suc)
  have bins: "\<forall>i<50. bin (h' ! i) = lo + real i * w"
  proof (intro allI impI)
    fix i :: nat assume i: "i < 50"
    have "bin (h' ! i) = map bin h' ! i" using i h'(2) by simp
    also have "\<dots> = map bin h0 ! i" using h'(3) by simp
    also have "\<dots> = lo + real i * w" using i l0 c0(2) by simp
    finally show "bin (h' ! i) = lo + real i * w" .
  qed
  have counts: "\<forall>i<50. count (h' ! i)
                = length (filter (\<lambda>p. lo + real i * w \<le> p
                                      \<and> (if i = 49 then p \<le> hi else p < lo + real (i + 1) * w)) ?f)"
  proof (intro allI impI)
    fix i :: nat assume i: "i < 50"
    have "filter (\<lambda>p. min (nat \<lfloor>(p - lo) / w\<rfloor>) 49 = i) ?f
            = filter (\<lambda>p. lo + real i * w \<le> p
                           \<and> (if i = 49 then p \<le> hi else p < lo + real (i + 1) * w)) ?f"
    proof (rule filter_cong [OF refl])
      fix p assume "p \<in> set ?f"
      then show "(min (nat \<lfloor>(p - lo) / w\<rfloor>) 49 = i)
          = (lo + real i * w \<le> p \<and> (if i = 49 then p \<le> hi else p < lo + real (i + 1) * w))"
        using bin_interval [OF w _ _ i, of lo p hi] lo_le le_hi by blast
    qed
    then show "count (h' ! i)
                = length (filter (\<lambda>p. lo + real i * w \<le> p
                                      \<and> (if i = 49 then p \<le> hi else p < lo + real (i + 1) * w)) ?f)"
      using h'(5) i c0(1) by simp
  qed
  have total: "sum_list (map count h') = numPaths params"
    using h'(4) s0 len by simp
  have "lo < hi \<and> length (histogram r) = 50
          \<and> (\<forall>i<50. bin (histogram r ! i) = lo + real i * w)
          \<and> (\<forall>i<50. count (histogram r ! i)
                = length (filter (\<lambda>p. lo + real i * w \<le> p
                                      \<and> (if i = 49 then p \<le> hi else p < lo + real (i + 1) * w))
                            ?f))
          \<and> sum_list (map count (histogram r)) = numPaths params"
    unfolding eq using lt h'(2) bins counts total by blast
  then show ?thesis
    unfolding Let_def w_def hi_def lo_def .
qed

theorem histogram_bins_witness:
  "uniformDraws exampleRandom
   \<and> \<not> isl (runMonteCarloSimulation exampleRandom 100 exampleParams 1 (1 / 2))
   \<and> length (histogram (projr (runMonteCarloSimulation exampleRandom 100 exampleParams 1 (1 / 2)))) = 50
   \<and> sum_list (map count (histogram (projr (runMonteCarloSimulation exampleRandom 100 exampleParams 1 (1 / 2)))))
       = 100"
proof -
  obtain r where r: "runMonteCarloSimulation exampleRandom 100 exampleParams 1 (1 / 2) = Inr r"
    using example_run [of 100] by auto
  have n: "numPaths exampleParams = 100" by (simp add: exampleParams_def)
  have "length (histogram r) = 50 \<and> sum_list (map count (histogram r)) = 100"
    using histogram_bins [OF uniformDraws_example r]
    unfolding Let_def n by blast
  then show ?thesis unfolding r by (simp add: uniformDraws_example)
qed

section \<open>A run that throws\<close>

lemma is_TypeError_Inl:
  "is_TypeError (Inl e :: error + 'a) = is_TypeError (Inl e :: error + 'b)"
  by (cases e) simp_all

lemma calculateStatistics_degenerate:
  assumes "ps \<noteq> []" "\<forall>p \<in> set ps. last p = c"
  shows "is_TypeError (calculateStatistics ps ip)"
proof -
  let ?f = "map last ps"
  have ne: "?f \<noteq> []" using assms(1) by simp
  have all: "\<forall>x \<in> set ?f. x = c" using assms(2) by auto
  have "set ?f = {c}" using ne all by (cases ?f) auto
  then have mn: "sort ?f ! 0 = c" and mx: "sort ?f ! (length (sort ?f) - 1) = c"
    using sort_min [OF ne] sort_max [OF ne] by simp_all
  have "c \<in> set ?f" using \<open>set ?f = {c}\<close> by simp
  then have "is_TypeError (fillHistogram ?f c 0
      (map (\<lambda>i. \<lparr>bin = c + real i * 0, count = 0\<rparr>) [0..<50]))"
    by (rule fillHistogram_degenerate)
  then obtain e where e: "fillHistogram ?f c 0
      (map (\<lambda>i. \<lparr>bin = c + real i * 0, count = 0\<rparr>) [0..<50]) = Inl e"
      and t: "is_TypeError (Inl e :: error + AnalyticsResult)"
    by (cases "fillHistogram ?f c 0 (map (\<lambda>i. \<lparr>bin = c + real i * 0, count = 0\<rparr>) [0..<50])")
       (auto simp: is_TypeError_Inl [where ?'a = "HistogramBin list" and ?'b = AnalyticsResult])
  show ?thesis
    unfolding calculateStatistics_def Let_def mn mx
    using e t by simp
qed

lemma ret_bound:
  fixes v z :: real
  assumes "0 < u" "u < 1" "z = sqrt (- 2 * ln u) * cos (2 * pi * w)"
  shows "d * dt - 0.5 * v * v * dt + v * sqrt dt * z \<le> d * dt - ln u"
proof -
  have dt: "sqrt dt * sqrt dt = dt" by (simp add: dt_def)
  have l: "0 \<le> - 2 * ln u" using assms(1,2) by simp
  have "z\<^sup>2 = (- 2 * ln u) * (cos (2 * pi * w))\<^sup>2"
    unfolding assms(3) using l by (simp add: power_mult_distrib)
  also have "\<dots> \<le> (- 2 * ln u) * 1"
  proof (rule mult_left_mono [OF _ l])
    have "\<bar>cos (2 * pi * w)\<bar> \<le> 1" by (rule abs_cos_le_one)
    then show "(cos (2 * pi * w))\<^sup>2 \<le> 1" by (simp add: abs_square_le_1)
  qed
  finally have z2: "z\<^sup>2 / 2 \<le> - ln u" by simp
  have "0 \<le> (z - v * sqrt dt)\<^sup>2" by simp
  also have "(z - v * sqrt dt)\<^sup>2 = z\<^sup>2 - 2 * (v * sqrt dt * z) + v * v * (sqrt dt * sqrt dt)"
    by (simp add: power2_eq_square algebra_simps)
  finally have "v * sqrt dt * z - 0.5 * v * v * dt \<le> z\<^sup>2 / 2"
    unfolding dt by simp
  then show ?thesis using z2 by simp
qed

lemma simStep_floored:
  assumes draws: "umin \<le> rnd k" "rnd k < 1" "0 < umin"
    and bound: "P * exp (d * dt) < MIN_PRICE * umin"
    and pr: "0 < pr" "pr \<le> P"
  shows "\<exists>v. simStep rnd d om a b (pp, pr, vol, k) = (pp @ [MIN_PRICE], MIN_PRICE, v, k + 2)"
proof -
  define z where "z = sqrt (- 2 * ln (rnd k)) * cos (2 * pi * rnd (k + 1))"
  define ret where "ret = d * dt - 0.5 * vol * vol * dt + vol * sqrt dt * z"
  have u: "0 < rnd k" using draws by simp
  have "ret \<le> d * dt - ln (rnd k)"
    unfolding ret_def using ret_bound [OF u draws(2) z_def] .
  then have "exp ret \<le> exp (d * dt - ln (rnd k))" by simp
  also have "\<dots> = exp (d * dt) / rnd k" using u by (simp add: exp_diff)
  also have "\<dots> \<le> exp (d * dt) / umin"
    using draws(1,3) by (intro divide_left_mono) simp_all
  finally have e: "exp ret \<le> exp (d * dt) / umin" .
  have "pr * exp ret \<le> P * (exp (d * dt) / umin)"
    using e pr by (intro mult_mono) simp_all
  also have "\<dots> = (P * exp (d * dt)) / umin" by simp
  also have "\<dots> < MIN_PRICE"
    using bound draws(3) by (simp add: pos_divide_less_eq)
  finally have lt: "pr * exp ret < MIN_PRICE" .
  have rn: "randomNormal rnd k = (z, k + 2)" by (simp add: randomNormal_def z_def)
  show ?thesis
    using lt [unfolded ret_def] by (simp add: simStep_def rn Let_def)
qed

lemma stepLoop_floored:
  assumes draws: "\<forall>i. umin \<le> rnd i \<and> rnd i < 1" "0 < umin"
    and bound: "P * exp (d * dt) < MIN_PRICE * umin"
    and pr: "0 < pr" "pr \<le> P" and P: "MIN_PRICE \<le> P"
    and n: "0 < n"
  shows "\<exists>new v. stepLoop n rnd d om a b (pp, pr, vol, k)
            = (pp @ new @ [MIN_PRICE], MIN_PRICE, v, k + 2 * n)"
  using pr n
proof (induction n arbitrary: pp pr vol k)
  case 0
  then show ?case by simp
next
  case (Suc n)
  obtain v where s: "simStep rnd d om a b (pp, pr, vol, k) = (pp @ [MIN_PRICE], MIN_PRICE, v, k + 2)"
    using simStep_floored [OF _ _ draws(2) bound Suc.prems(1,2)] draws(1) by blast
  show ?case
  proof (cases "n = 0")
    case True
    then show ?thesis using s by simp
  next
    case False
    have "0 < MIN_PRICE" by (simp add: MIN_PRICE_def)
    then obtain new v' where "stepLoop n rnd d om a b (pp @ [MIN_PRICE], MIN_PRICE, v, k + 2)
        = ((pp @ [MIN_PRICE]) @ new @ [MIN_PRICE], MIN_PRICE, v', k + 2 + 2 * n)"
      using Suc.IH [of MIN_PRICE "pp @ [MIN_PRICE]" v "k + 2"] P False by auto
    then have "stepLoop (Suc n) rnd d om a b (pp, pr, vol, k)
        = (pp @ (MIN_PRICE # new) @ [MIN_PRICE], MIN_PRICE, v', k + 2 * Suc n)"
      using s by simp
    then show ?thesis by blast
  qed
qed

text \<open>
  A run that passes validation can still throw. When the drift is so negative that every
  simulated price is floored at 0.01, all terminal prices coincide, the bin width is 0, the
  bin index \<open>0 / 0\<close> is NaN and \<open>histogram[NaN].count++\<close> throws a TypeError: no result is
  returned. The bound below is on the drift, the seed price and the smallest draw.
\<close>

theorem run_throws_when_paths_end_at_floor:
  assumes valid: "validateParams params = Inr ()" "0 < ip" "0 < vol"
    and draws: "\<forall>i. umin \<le> rnd i \<and> rnd i < 1" "0 < umin"
    and bound: "max ip MIN_PRICE * exp (d * dt) < MIN_PRICE * umin"
  shows "is_TypeError (runMonteCarloSimulation rnd ip params vol d)"
proof -
  let ?ps = "generatedPaths rnd ip params vol d"
  have steps: "0 < numSteps params" and np: "0 < numPaths params"
    using valid(1) by (simp_all add: validateParams_Inr)
  have "last p = MIN_PRICE" if mem: "p \<in> set ?ps" for p
  proof -
    obtain j where p: "p = fst (simulatePath rnd (numSteps params) ip vol d
                     (vol * vol * (1 - alpha params - beta params))
                     (alpha params) (beta params) (2 * numSteps params * j))"
      using mem by (auto simp: generatedPaths_def)
    obtain new v where "stepLoop (numSteps params) rnd d
          (vol * vol * (1 - alpha params - beta params)) (alpha params) (beta params)
          ([ip], ip, vol, 2 * numSteps params * j)
        = ([ip] @ new @ [MIN_PRICE], MIN_PRICE, v, 2 * numSteps params * j + 2 * numSteps params)"
      using stepLoop_floored [OF draws bound valid(2) _ _ steps, of
          "vol * vol * (1 - alpha params - beta params)" "alpha params" "beta params" "[ip]" vol
          "2 * numSteps params * j"]
      by auto
    then show ?thesis unfolding p simulatePath_def by simp
  qed
  moreover have "?ps \<noteq> []" using np generatedPaths_length [of rnd ip params vol d] by auto
  ultimately have "is_TypeError (calculateStatistics ?ps ip)"
    by (intro calculateStatistics_degenerate) auto
  then show ?thesis using valid by (simp add: run_eq)
qed

lemma exp_minus_ten: "exp (- 10 :: real) < 1 / 900"
proof -
  have "(2::real) \<le> exp 1" using exp_ge_add_one_self [of "1::real"] by simp
  then have "(2::real) ^ 10 \<le> exp 1 ^ 10" by (intro power_mono) simp_all
  also have "exp (1::real) ^ 10 = exp 10"
    using exp_of_nat_mult [of 10 "1::real"] by simp
  finally have "(900::real) < exp 10" by simp
  then have "1 / exp (10::real) < 1 / 900" by (intro divide_strict_left_mono) simp_all
  then show ?thesis by (simp add: exp_minus field_simps)
qed

lemma exp_minus_two: "(1::real) / 9 \<le> exp (- 2)"
proof -
  have "exp (1::real) \<le> 3" by (rule exp_le)
  then have "exp (1::real) ^ 2 \<le> 3 ^ 2" by (intro power_mono) simp_all
  moreover have "exp (1::real) ^ 2 = exp 2" using exp_of_nat_mult [of 2 "1::real"] by simp
  ultimately have "exp (2::real) \<le> 9" by simp
  then have "1 / 9 \<le> 1 / exp (2::real)" by (intro divide_left_mono) simp_all
  then show ?thesis by (simp add: exp_minus field_simps)
qed

theorem run_throws_when_paths_end_at_floor_witness:
  "validateParams exampleParams = Inr ()
   \<and> (\<forall>i. 1 / 9 \<le> exampleRandom i \<and> exampleRandom i < 1)
   \<and> max 1 MIN_PRICE * exp (- 2520 * dt) < MIN_PRICE * (1 / 9)
   \<and> is_TypeError (runMonteCarloSimulation exampleRandom 1 exampleParams 1 (- 2520))"
proof -
  have draws: "\<forall>i. 1 / 9 \<le> exampleRandom i \<and> exampleRandom i < 1"
    using exp_minus_two by (simp add: exampleRandom_def)
  have bound: "max 1 MIN_PRICE * exp (- 2520 * dt) < MIN_PRICE * (1 / 9)"
    using exp_minus_ten by (simp add: MIN_PRICE_def dt_def)
  show ?thesis
    using run_throws_when_paths_end_at_floor [OF validateParams_example _ _ draws _ bound]
      draws bound validateParams_example
    by simp
qed

end
